theory Spec2Isabelle
  imports Complex_Main
begin

section \<open>Materials\<close>

text \<open>
  The facility of \<^verbatim>\<open>batch_reactor.cc\<close> handles materials through the simulation
  kernel's \<^verbatim>\<open>Material\<close> class: a quantity (a C++ \<^verbatim>\<open>double\<close>) and a composition.
  Quantities are modelled as rationals: every finite double is a rational number, and
  the arithmetic that the kernel does on them (merging, splitting, summing a buffer) is
  taken exact (no rounding, and the kernel's tolerance \<^verbatim>\<open>eps_rsrc()\<close> is zero). The
  arithmetic that \<^verbatim>\<open>batch_reactor.cc\<close> itself does on doubles and on ints is modelled
  with its rounding and its wrap-around, see the section on machine arithmetic. The
  composition is opaque to the facility; it is kept as a symbolic value: blank, a named
  recipe, or the mixture left by an absorption.
\<close>

datatype composition = Blank | Recipe string | Mixed rat composition rat composition

record material =
  quantity :: rat
  comp :: composition

datatype error =
    Error string      \<comment> \<open>\<^verbatim>\<open>cyclus::Error\<close> (and its subclasses), with the text of \<^verbatim>\<open>what()\<close>\<close>
  | out_of_range      \<comment> \<open>\<^verbatim>\<open>std::out_of_range\<close>, thrown by \<^verbatim>\<open>vector::at\<close>\<close>
  | Undefined         \<comment> \<open>\<^verbatim>\<open>operator[]\<close> on an empty vector: no defined behaviour\<close>

text \<open>
  An operation on a state \<open>'s\<close> either returns with the new state (\<open>Inr s\<close>) or
  throws (\<open>Inl (e, s)\<close>); the state at the throw is kept, since a C++ exception leaves
  the object as the statements before it made it.
\<close>

type_synonym 's outcome = "(error \<times> 's) + 's"

definition state_of :: "'s outcome \<Rightarrow> 's" where
  "state_of r = (case r of Inl (e, s) \<Rightarrow> s | Inr s \<Rightarrow> s)"

text \<open>Modelled from the spec: \<^verbatim>\<open>Context::GetRecipe\<close>, the collaborator's recipe lookup,
  which gives the composition tagged by a recipe name.\<close>

definition GetRecipe :: "string \<Rightarrow> composition" where
  "GetRecipe name = Recipe name"

text \<open>Modelled from the spec: \<^verbatim>\<open>Material::Create\<close>, \<^verbatim>\<open>Material::CreateUntracked\<close> and
  \<^verbatim>\<open>Material::CreateBlank\<close> of the material collaborator (quantity plus composition).\<close>

definition Create :: "rat \<Rightarrow> composition \<Rightarrow> material" where
  "Create q c = \<lparr>quantity = q, comp = c\<rparr>"

definition CreateUntracked :: "rat \<Rightarrow> composition \<Rightarrow> material" where
  "CreateUntracked q c = \<lparr>quantity = q, comp = c\<rparr>"

definition CreateBlank :: "rat \<Rightarrow> material" where
  "CreateBlank q = \<lparr>quantity = q, comp = Blank\<rparr>"

text \<open>Modelled from the spec: \<^verbatim>\<open>Material::Absorb\<close> (merge), \<^verbatim>\<open>Material::ExtractQty\<close>
  (split) and \<^verbatim>\<open>Material::Transmute\<close> of the material collaborator. \<open>Absorb this mat\<close>
  is the absorbing material after \<^verbatim>\<open>this->Absorb(mat)\<close>; \<open>ExtractQty this q\<close> gives
  the extracted material and what is left of \<open>this\<close>.\<close>

definition Absorb :: "material \<Rightarrow> material \<Rightarrow> material" where
  "Absorb this mat =
     \<lparr>quantity = quantity this + quantity mat,
      comp = (if comp this = comp mat then comp this
              else Mixed (quantity this) (comp this) (quantity mat) (comp mat))\<rparr>"

definition extract_what :: string where
  "extract_what = ''mass extraction causes negative quantity''"

definition ExtractQty :: "material \<Rightarrow> rat \<Rightarrow> error + (material \<times> material)" where
  "ExtractQty this q =
     (if quantity this < q then Inl (Error extract_what)
      else Inr (\<lparr>quantity = q, comp = comp this\<rparr>, this\<lparr>quantity := quantity this - q\<rparr>))"

definition Transmute :: "material \<Rightarrow> composition \<Rightarrow> material" where
  "Transmute this c = this\<lparr>comp := c\<rparr>"

section \<open>Buffers\<close>

text \<open>Modelled from the spec: the kernel's \<^verbatim>\<open>ResourceBuff\<close>, an ordered collection of
  batches of unbounded capacity with push, pop (first in, first out), a pop by
  quantity that may split the last batch it takes, a count and a total quantity. A pop
  from an empty buffer and a pop of more than the buffer holds throw.\<close>

type_synonym ResourceBuff = "material list"

definition count :: "ResourceBuff \<Rightarrow> int" where
  "count b = int (length b)"

definition buff_quantity :: "ResourceBuff \<Rightarrow> rat" where
  "buff_quantity b = sum_list (map quantity b)"

definition Push :: "ResourceBuff \<Rightarrow> material \<Rightarrow> ResourceBuff" where
  "Push b m = b @ [m]"

definition pop_what :: string where
  "pop_what = ''cannot pop material from an empty store.''"

definition popqty_what :: string where
  "popqty_what = ''Removal quantity larger than store tot quantity.''"

definition Pop :: "ResourceBuff \<Rightarrow> error + (material \<times> ResourceBuff)" where
  "Pop b = (case b of [] \<Rightarrow> Inl (Error pop_what) | m # rest \<Rightarrow> Inr (m, rest))"

fun PopQty_loop :: "rat \<Rightarrow> ResourceBuff \<Rightarrow> material list \<Rightarrow> error + (material list \<times> ResourceBuff)" where
  "PopQty_loop left [] manifest =
     (if left > 0 then Inl Undefined else Inr (manifest, []))"
| "PopQty_loop left (r # mats) manifest =
     (if left > 0 then
        (if quantity r - left > 0
         then (case ExtractQty r left of
                 Inl e \<Rightarrow> Inl e
               | Inr (tmp, r') \<Rightarrow> Inr (manifest @ [tmp], r' # mats))
         else PopQty_loop (left - quantity r) mats (manifest @ [r]))
      else Inr (manifest, r # mats))"

definition PopQty :: "ResourceBuff \<Rightarrow> rat \<Rightarrow> error + (material list \<times> ResourceBuff)" where
  "PopQty b qty =
     (if qty - buff_quantity b > 0 then Inl (Error popqty_what)
      else PopQty_loop qty b [])"

section \<open>Machine arithmetic\<close>

subsection \<open>Ints\<close>

text \<open>The sum of two C++ \<^verbatim>\<open>int\<close>s as 32-bit two's complement arithmetic gives it: the
  mathematical sum when that lies between \<open>-2\<^sup>3\<^sup>1\<close> and \<open>2\<^sup>3\<^sup>1 - 1\<close>, and the sum
  wrapped around into that range otherwise.\<close>

definition int_add :: "int \<Rightarrow> int \<Rightarrow> int" where
  "int_add a b = (a + b + 2147483648) mod 4294967296 - 2147483648"

subsection \<open>Doubles\<close>

text \<open>A C++ \<^verbatim>\<open>double\<close> (IEEE 754 binary64) is a finite number, an infinity or not a
  number. The sign of a zero is not kept: nothing below divides, so it cannot show in
  a result. Every operation gives the exactly computed result rounded to the nearest
  double, ties to the even significand.\<close>

datatype double = Num rat | PInf | NInf | NaN

text \<open>\<open>bits n\<close> is the length of \<open>n > 0\<close> in binary, and \<open>ilog2 a\<close> the exponent
  \<open>e\<close> with \<open>2\<^sup>e \<le> a < 2\<^sup>e\<^sup>+\<^sup>1\<close> of a rational \<open>a > 0\<close>.\<close>

function bits :: "int \<Rightarrow> int" where
  "bits n = (if n \<le> 0 then 0 else 1 + bits (n div 2))"
  by pat_completeness auto
termination
  by (relation "measure nat") auto

declare bits.simps [simp del]

definition ilog2 :: "rat \<Rightarrow> int" where
  "ilog2 a =
     (let (p, q) = quotient_of a;
          k = bits p - bits q
      in if 2 powi k \<le> a then k else k - 1)"

definition round_half_even :: "rat \<Rightarrow> int" where
  "round_half_even m =
     (let n = \<lfloor>m\<rfloor>; r = m - of_int n
      in if r < 1 / 2 then n
         else if 1 / 2 < r then n + 1
         else if even n then n else n + 1)"

text \<open>Rounding to the nearest double. A double with exponent \<open>e\<close> is a multiple of
  \<open>2\<^sup>e\<^sup>-\<^sup>5\<^sup>2\<close>; below \<open>2\<^sup>-\<^sup>1\<^sup>0\<^sup>2\<^sup>2\<close> the doubles are the multiples of \<open>2\<^sup>-\<^sup>1\<^sup>0\<^sup>7\<^sup>4\<close>. What
  rounds to \<open>2\<^sup>1\<^sup>0\<^sup>2\<^sup>4\<close> or more in magnitude is an infinity.\<close>

definition round_double :: "rat \<Rightarrow> double" where
  "round_double x =
     (if x = 0 then Num 0
      else if 1024 \<le> ilog2 \<bar>x\<bar> then (if 0 < x then PInf else NInf)
      else
        (let e = max (ilog2 \<bar>x\<bar>) (- 1022);
             ulp = 2 powi (e - 52);
             n = round_half_even (\<bar>x\<bar> / ulp)
         in if e = 1023 \<and> 2 ^ 53 \<le> n then (if 0 < x then PInf else NInf)
            else Num (if 0 < x then of_int n * ulp else - (of_int n * ulp))))"

fun dneg :: "double \<Rightarrow> double" where
  "dneg (Num a) = Num (- a)"
| "dneg PInf = NInf"
| "dneg NInf = PInf"
| "dneg NaN = NaN"

fun dadd :: "double \<Rightarrow> double \<Rightarrow> double" where
  "dadd (Num a) (Num b) = round_double (a + b)"
| "dadd NaN y = NaN"
| "dadd x NaN = NaN"
| "dadd PInf NInf = NaN"
| "dadd NInf PInf = NaN"
| "dadd PInf y = PInf"
| "dadd NInf y = NInf"
| "dadd x PInf = PInf"
| "dadd x NInf = NInf"

definition dsub :: "double \<Rightarrow> double \<Rightarrow> double" where
  "dsub a b = dadd a (dneg b)"

definition dsgn :: "double \<Rightarrow> int" where
  "dsgn x = (case x of Num a \<Rightarrow> (if a < 0 then - 1 else if a = 0 then 0 else 1)
                     | PInf \<Rightarrow> 1 | NInf \<Rightarrow> - 1 | NaN \<Rightarrow> 0)"

definition dmul :: "double \<Rightarrow> double \<Rightarrow> double" where
  "dmul x y =
     (case (x, y) of
        (Num a, Num b) \<Rightarrow> round_double (a * b)
      | (NaN, _) \<Rightarrow> NaN
      | (_, NaN) \<Rightarrow> NaN
      | _ \<Rightarrow> (if dsgn x * dsgn y = 0 then NaN
              else if 0 < dsgn x * dsgn y then PInf else NInf))"

text \<open>The comparison \<^verbatim>\<open>x > 0\<close> on doubles: false for what is not a number.\<close>

definition dpos :: "double \<Rightarrow> bool" where
  "dpos x = (case x of Num a \<Rightarrow> 0 < a | PInf \<Rightarrow> True | _ \<Rightarrow> False)"

text \<open>The double that holds a quantity of the model (the quantity itself when it is a
  double), and the conversion of an \<^verbatim>\<open>int\<close> to a double.\<close>

definition to_double :: "rat \<Rightarrow> double" where
  "to_double q = round_double q"

definition int_to_double :: "int \<Rightarrow> double" where
  "int_to_double n = round_double (of_int n)"

section \<open>The facility\<close>

datatype Phase = INITIAL | PROCESS | WAITING

text \<open>The initial conditions \<^verbatim>\<open>InitCond(n_reserves, n_core, n_storage)\<close>; the fields
  carry the prefix \<open>ic_\<close> to keep them apart from the facility's own \<open>n_reserves\<close>
  and \<open>n_core\<close>.\<close>

record InitCond =
  ic_n_reserves :: int
  ic_n_core :: int
  ic_n_storage :: int

record facility =
  process_time :: int
  preorder_time :: int
  refuel_time :: int
  start_time :: int
  n_batches :: int
  n_load :: int
  n_reserves :: int
  batch_size :: rat
  in_commodity :: string
  in_recipe :: string
  out_commodity :: string
  out_recipe :: string
  phase :: Phase
  ics :: InitCond
  reserves :: ResourceBuff
  core :: ResourceBuff
  storage :: ResourceBuff
  spillover :: material

text \<open>The constructor \<^verbatim>\<open>BatchReactor::BatchReactor\<close>.\<close>

definition BatchReactor :: facility where
  "BatchReactor =
     \<lparr>process_time = 1, preorder_time = 0, refuel_time = 0, start_time = -1,
      n_batches = 1, n_load = 1, n_reserves = 1, batch_size = 1,
      in_commodity = '''', in_recipe = '''', out_commodity = '''', out_recipe = '''',
      phase = INITIAL,
      ics = \<lparr>ic_n_reserves = 0, ic_n_core = 0, ic_n_storage = 0\<rparr>,
      reserves = [], core = [], storage = [],
      spillover = CreateBlank 0\<rparr>"

text \<open>Modelled from the spec: the inline accessors of \<^verbatim>\<open>batch_reactor.h\<close>, which is not
  among the sources: the end of processing is \<open>startTime + processTime\<close>, the order
  time is that horizon minus \<open>preorderTime\<close>, and the core's count is the number of its
  batches.\<close>

definition end_time :: "facility \<Rightarrow> int" where
  "end_time f = start_time f + process_time f"

definition order_time :: "facility \<Rightarrow> int" where
  "order_time f = end_time f - preorder_time f"

definition n_core :: "facility \<Rightarrow> int" where
  "n_core f = count (core f)"

subsection \<open>Configuration\<close>

text \<open>The parsed content of the facility's input (the \<^verbatim>\<open>QueryEngine\<close>): an optional
  element is \<open>None\<close> when absent. The commodity-production block only registers with
  the producer base class and is left out.\<close>

record config =
  incommodity :: string
  inrecipe :: string
  outcommodity :: string
  outrecipe :: string
  processtime :: int
  nbatches :: int
  batchsize :: rat
  refueltime :: "int option"
  orderlookahead :: "int option"
  norder :: "int option"
  nreload :: "int option"
  initial_condition :: "(int option \<times> int option \<times> int option) option"

definition GetOptionalQuery :: "'a option \<Rightarrow> 'a \<Rightarrow> 'a" where
  "GetOptionalQuery q dflt = (case q of None \<Rightarrow> dflt | Some v \<Rightarrow> v)"

definition InitModuleMembers :: "config \<Rightarrow> facility \<Rightarrow> facility" where
  "InitModuleMembers qe f0 =
     (let f1 = f0\<lparr>in_commodity := incommodity qe, in_recipe := inrecipe qe,
                  out_commodity := outcommodity qe, out_recipe := outrecipe qe\<rparr>;
          f2 = f1\<lparr>process_time := processtime qe, n_batches := nbatches qe,
                  batch_size := batchsize qe\<rparr>;
          f3 = f2\<lparr>refuel_time := GetOptionalQuery (refueltime qe) (refuel_time f2)\<rparr>;
          f4 = f3\<lparr>preorder_time := GetOptionalQuery (orderlookahead qe) (preorder_time f3)\<rparr>;
          f5 = f4\<lparr>n_load := GetOptionalQuery (nreload qe) (n_load f4)\<rparr>;
          f6 = f5\<lparr>n_reserves := GetOptionalQuery (norder qe) (n_load f5)\<rparr>;
          ic = (case initial_condition qe of
                  None \<Rightarrow> \<lparr>ic_n_reserves = 0, ic_n_core = 0, ic_n_storage = 0\<rparr>
                | Some (r, c, s) \<Rightarrow>
                    \<lparr>ic_n_reserves = GetOptionalQuery r 0, ic_n_core = GetOptionalQuery c 0,
                     ic_n_storage = GetOptionalQuery s 0\<rparr>)
      in f6\<lparr>ics := ic\<rparr>)"

subsection \<open>Deployment\<close>

text \<open>Each \<^verbatim>\<open>for (int i = 0; i < n; ++i)\<close> loop of \<^verbatim>\<open>Deploy\<close> pushes one fresh batch per
  round, \<open>nat n\<close> rounds in all (none when \<open>n \<le> 0\<close>).\<close>

fun push_n :: "nat \<Rightarrow> material \<Rightarrow> ResourceBuff \<Rightarrow> ResourceBuff" where
  "push_n 0 m b = b"
| "push_n (Suc k) m b = push_n k m (Push b m)"

definition set_phase :: "int \<Rightarrow> Phase \<Rightarrow> facility \<Rightarrow> facility" where
  "set_phase ctx_time p f =
     (case p of
        PROCESS \<Rightarrow> f\<lparr>start_time := ctx_time, phase := p\<rparr>
      | _ \<Rightarrow> f\<lparr>phase := p\<rparr>)"

definition Deploy :: "int \<Rightarrow> facility \<Rightarrow> facility" where
  "Deploy ctx_time f0 =
     (let f1 = set_phase ctx_time INITIAL f0;
          f2 = f1\<lparr>spillover := CreateBlank 0\<rparr>;
          f3 = f2\<lparr>reserves := push_n (nat (ic_n_reserves (ics f2)))
                     (Create (batch_size f2) (GetRecipe (in_recipe f2))) (reserves f2)\<rparr>;
          f4 = f3\<lparr>core := push_n (nat (ic_n_core (ics f3)))
                     (Create (batch_size f3) (GetRecipe (in_recipe f3))) (core f3)\<rparr>
      in f4\<lparr>storage := push_n (nat (ic_n_storage (ics f4)))
                     (Create (batch_size f4) (GetRecipe (out_recipe f4))) (storage f4)\<rparr>)"

subsection \<open>Moving batches\<close>

text \<open>The private member functions \<^verbatim>\<open>Refuel_\<close>, \<^verbatim>\<open>MoveBatchIn_\<close>, \<^verbatim>\<open>MoveBatchOut_\<close>,
  \<^verbatim>\<open>GetOrder_\<close> and \<^verbatim>\<open>AddBatches_\<close> are written without the trailing underscore. A
  \<^verbatim>\<open>catch(cyclus::Error e)\<close> block of the source rethrows a \<^verbatim>\<open>cyclus::Error\<close> with a
  prefixed message; what is not a \<^verbatim>\<open>cyclus::Error\<close> passes through it.\<close>

definition wrap :: "error \<Rightarrow> error" where
  "wrap e = (case e of
               Error what \<Rightarrow> Error (''BatchReactor experience an error: '' @ what)
             | _ \<Rightarrow> e)"

definition MoveBatchIn :: "facility \<Rightarrow> facility outcome" where
  "MoveBatchIn f =
     (case Pop (reserves f) of
        Inl e \<Rightarrow> Inl (wrap e, f)
      | Inr (m, rest) \<Rightarrow> Inr (f\<lparr>reserves := rest, core := Push (core f) m\<rparr>))"

definition MoveBatchOut :: "facility \<Rightarrow> facility outcome" where
  "MoveBatchOut f =
     (case Pop (core f) of
        Inl e \<Rightarrow> Inl (wrap e, f)
      | Inr (m, rest) \<Rightarrow>
          Inr (f\<lparr>core := rest,
                 storage := Push (storage f) (Transmute m (GetRecipe (out_recipe f)))\<rparr>))"

function Refuel :: "facility \<Rightarrow> facility outcome" where
  "Refuel f =
     (if n_core f < n_batches f \<and> count (reserves f) > 0
      then (case MoveBatchIn f of Inl x \<Rightarrow> Inl x | Inr f' \<Rightarrow> Refuel f')
      else Inr f)"
  by pat_completeness auto
termination
  by (relation "measure (\<lambda>f. length (reserves f))")
     (auto simp: MoveBatchIn_def Pop_def split: list.splits)

declare Refuel.simps [simp del]

text \<open>The unloading loop \<^verbatim>\<open>for (int i = 0; i < n_load(); i++) MoveBatchOut_();\<close>,
  by the number of rounds left.\<close>

fun unload :: "nat \<Rightarrow> facility \<Rightarrow> facility outcome" where
  "unload 0 f = Inr f"
| "unload (Suc k) f =
     (case MoveBatchOut f of Inl x \<Rightarrow> Inl x | Inr f' \<Rightarrow> unload k f')"

subsection \<open>Tick and tock\<close>

text \<open>\<open>ctx_time\<close> is \<^verbatim>\<open>context()->time()\<close>, the simulation's clock; \<open>time\<close> is the
  argument of the call. The sum \<^verbatim>\<open>end_time() + refuel_time()\<close> of the WAITING case is a
  sum of two \<^verbatim>\<open>int\<close>s.\<close>

definition HandleTick :: "int \<Rightarrow> int \<Rightarrow> facility \<Rightarrow> facility outcome" where
  "HandleTick ctx_time time f =
     (case phase f of
        PROCESS \<Rightarrow>
          (if time = end_time f
           then (case unload (nat (n_load f)) f of
                   Inl x \<Rightarrow> Inl x
                 | Inr f' \<Rightarrow> Inr (set_phase ctx_time WAITING f'))
           else Inr f)
      | WAITING \<Rightarrow>
          (if n_core f = n_batches f \<and> int_add (end_time f) (refuel_time f) \<le> ctx_time
           then Inr (set_phase ctx_time PROCESS f)
           else Inr f)
      | INITIAL \<Rightarrow>
          (if n_core f = n_batches f then Inr (set_phase ctx_time PROCESS f) else Inr f))"

definition HandleTock :: "int \<Rightarrow> facility \<Rightarrow> facility outcome" where
  "HandleTock time f =
     (case phase f of
        INITIAL \<Rightarrow> Refuel f
      | WAITING \<Rightarrow> Refuel f
      | PROCESS \<Rightarrow> Inr f)"

subsection \<open>Absorbing deliveries\<close>

text \<open>The loop of \<^verbatim>\<open>AddBatches_\<close> slices batches off the spillover while it holds at
  least one batch size. Nothing in the source bounds the number of rounds (with a batch
  size of zero the loop never ends), so the loop is a partial function: \<open>None\<close> is a
  call that does not return.\<close>

partial_function (option) AddBatches_loop :: "facility \<Rightarrow> facility outcome option" where
  "AddBatches_loop f =
     (if quantity (spillover f) \<ge> batch_size f
      then (case ExtractQty (spillover f) (batch_size f) of
              Inl e \<Rightarrow> Some (Inl (e, f))
            | Inr (batch, rest) \<Rightarrow>
                AddBatches_loop (f\<lparr>spillover := rest, reserves := Push (reserves f) batch\<rparr>))
      else Some (Inr f))"

declare AddBatches_loop.simps [code]

definition AddBatches :: "material \<Rightarrow> facility \<Rightarrow> facility outcome option" where
  "AddBatches mat f = AddBatches_loop (f\<lparr>spillover := Absorb (spillover f) mat\<rparr>)"

subsection \<open>The exchange\<close>

text \<open>A trade carries its request and bid (opaque handles here) and the amount agreed;
  a response pairs a trade with the material that fulfils it.\<close>

record trade =
  request :: nat
  bid :: nat
  amt :: rat

type_synonym response = "trade \<times> material"

record req =
  target :: material
  commodity :: string

text \<open>What the facility itself asks for: the size of an order is a double computed in
  \<^verbatim>\<open>GetMatlRequests\<close>, which may be infinite, so the material of an order keeps its
  quantity as a double.\<close>

record order_material =
  order_quantity :: double
  order_comp :: composition

record order_request =
  order_target :: order_material
  order_commodity :: string

record request_portfolio =
  requests :: "order_request list"
  req_constraints :: "double list"

record bid_offer =
  bid_request :: req
  offer :: material

record bid_portfolio =
  bids :: "bid_offer list"
  bid_constraints :: "rat list"

definition GetOrder :: "double \<Rightarrow> facility \<Rightarrow> request_portfolio" where
  "GetOrder sz f =
     \<lparr>requests = [\<lparr>order_target = \<lparr>order_quantity = sz,
                                    order_comp = GetRecipe (in_recipe f)\<rparr>,
                   order_commodity = in_commodity f\<rparr>],
      req_constraints = [sz]\<rparr>"

text \<open>The \<^verbatim>\<open>std::set\<close> of portfolios that \<^verbatim>\<open>GetMatlRequests\<close> and \<^verbatim>\<open>GetMatlBids\<close> return
  holds at most one portfolio; it is a list here. \<^verbatim>\<open>GetMatlRequests\<close> computes
  \<^verbatim>\<open>order_size\<close> in doubles, from left to right, an \<^verbatim>\<open>int\<close> factor converted to a double
  first.\<close>

definition GetMatlRequests :: "int \<Rightarrow> facility \<Rightarrow> request_portfolio list" where
  "GetMatlRequests ctx_time f =
     (case phase f of
        INITIAL \<Rightarrow>
          (let order_size0 =
                 dsub (dsub (dsub (dmul (int_to_double (n_batches f)) (to_double (batch_size f)))
                                  (to_double (buff_quantity (core f))))
                            (to_double (buff_quantity (reserves f))))
                      (to_double (quantity (spillover f)));
               order_size = (if preorder_time f = 0
                             then dadd order_size0
                                    (dmul (to_double (batch_size f)) (int_to_double (n_reserves f)))
                             else order_size0)
           in if dpos order_size then [GetOrder order_size f] else [])
      | _ \<Rightarrow>
          (let order_size =
                 dsub (dsub (dmul (int_to_double (n_reserves f)) (to_double (batch_size f)))
                            (to_double (buff_quantity (reserves f))))
                      (to_double (quantity (spillover f)))
           in if order_time f \<le> ctx_time \<and> dpos order_size
              then [GetOrder order_size f] else []))"

text \<open>The first three statements of \<^verbatim>\<open>AcceptMatlTrades\<close>: the first response's material
  absorbs the later ones; \<^verbatim>\<open>responses.at(0)\<close> throws on an empty vector.\<close>

definition merge_responses :: "response list \<Rightarrow> error + material" where
  "merge_responses responses =
     (case responses of
        [] \<Rightarrow> Inl out_of_range
      | r # rs \<Rightarrow> Inr (foldl (\<lambda>mat x. Absorb mat (snd x)) (snd r) rs))"

definition AcceptMatlTrades :: "response list \<Rightarrow> facility \<Rightarrow> facility outcome option" where
  "AcceptMatlTrades responses f =
     (case merge_responses responses of
        Inl e \<Rightarrow> Some (Inl (e, f))
      | Inr mat \<Rightarrow> AddBatches mat f)"

definition GetMatlBids :: "(string \<rightharpoonup> req list) \<Rightarrow> facility \<Rightarrow> bid_portfolio list" where
  "GetMatlBids commod_requests f =
     (case commod_requests (out_commodity f) of
        None \<Rightarrow> []
      | Some rqs \<Rightarrow>
          (if buff_quantity (storage f) > 0
           then [\<lparr>bids = map (\<lambda>rq. \<lparr>bid_request = rq,
                                    offer = CreateUntracked
                                      (min (quantity (target rq)) (buff_quantity (storage f)))
                                      (GetRecipe (out_recipe f))\<rparr>) rqs,
                  bid_constraints = [buff_quantity (storage f)]\<rparr>]
           else []))"

text \<open>\<^verbatim>\<open>GetMatlTrades\<close> appends to the caller's vector \<^verbatim>\<open>responses\<close>; the vector is part
  of the state it passes on.\<close>

fun GetMatlTrades :: "trade list \<Rightarrow> facility \<times> response list \<Rightarrow> (facility \<times> response list) outcome" where
  "GetMatlTrades [] s = Inr s"
| "GetMatlTrades (t # trades) (f, responses) =
     (case PopQty (storage f) (amt t) of
        Inl e \<Rightarrow> Inl (wrap e, (f, responses))
      | Inr (manifest, rest) \<Rightarrow>
          (case manifest of
             [] \<Rightarrow> Inl (Undefined, (f\<lparr>storage := rest\<rparr>, responses))
           | m # ms \<Rightarrow>
               GetMatlTrades trades (f\<lparr>storage := rest\<rparr>, responses @ [(t, foldl Absorb m ms)])))"

subsection \<open>The facility's lifetime\<close>

text \<open>The scheduler calls the facility with the clock's time: a tick, a tock, the
  incoming trades of a step and the outgoing ones. A run stops at the first call that
  throws.\<close>

datatype event = Tick int | Tock int | AcceptTrades "response list" | GetTrades "trade list"

definition step :: "event \<Rightarrow> facility \<Rightarrow> facility outcome option" where
  "step ev f =
     (case ev of
        Tick t \<Rightarrow> Some (HandleTick t t f)
      | Tock t \<Rightarrow> Some (HandleTock t f)
      | AcceptTrades rs \<Rightarrow> AcceptMatlTrades rs f
      | GetTrades ts \<Rightarrow> Some (map_sum (map_prod id fst) fst (GetMatlTrades ts (f, []))))"

fun run :: "event list \<Rightarrow> facility \<Rightarrow> facility outcome option" where
  "run [] f = Some (Inr f)"
| "run (ev # evs) f =
     (case step ev f of
        None \<Rightarrow> None
      | Some (Inl x) \<Rightarrow> Some (Inl x)
      | Some (Inr f') \<Rightarrow> run evs f')"

text \<open>The quantity the facility holds, the quantity of a list of responses, and what
  an event brings in and sends out.\<close>

definition total_qty :: "facility \<Rightarrow> rat" where
  "total_qty f = buff_quantity (reserves f) + buff_quantity (core f)
             + buff_quantity (storage f) + quantity (spillover f)"

definition resp_qty :: "response list \<Rightarrow> rat" where
  "resp_qty rs = sum_list (map (\<lambda>x. quantity (snd x)) rs)"

definition received :: "event \<Rightarrow> rat" where
  "received ev = (case ev of AcceptTrades rs \<Rightarrow> resp_qty rs | _ \<Rightarrow> 0)"

definition shipped :: "event \<Rightarrow> rat" where
  "shipped ev = (case ev of GetTrades ts \<Rightarrow> sum_list (map amt ts) | _ \<Rightarrow> 0)"

section \<open>Notions of the specification\<close>

text \<open>The need of the INITIAL phase in the specification's words,
  \<open>batchCount\<cdot>batchSize - core.qty - reserves.qty - spillover.qty\<close>, to which
  \<open>reserveTargetCount\<cdot>batchSize\<close> is added when there is no lead time: first with the
  operations of the rational numbers, then with those of doubles.\<close>

definition spec_need :: "facility \<Rightarrow> rat" where
  "spec_need f = of_int (n_batches f) * batch_size f - buff_quantity (core f)
                   - buff_quantity (reserves f) - quantity (spillover f)
                   + (if preorder_time f = 0 then of_int (n_reserves f) * batch_size f else 0)"

definition need_in_doubles :: "facility \<Rightarrow> double" where
  "need_in_doubles f =
     (let need = dsub (dsub (dsub (dmul (int_to_double (n_batches f)) (to_double (batch_size f)))
                                  (to_double (buff_quantity (core f))))
                            (to_double (buff_quantity (reserves f))))
                      (to_double (quantity (spillover f)))
      in if preorder_time f = 0
         then dadd need (dmul (int_to_double (n_reserves f)) (to_double (batch_size f)))
         else need)"

text \<open>Modelled from the spec: the market's reading of a portfolio's capacity
  constraints, which is not among the sources: the amounts it accepts, one per bid,
  sum to no more than each constraint of the portfolio.\<close>

definition within_capacity :: "bid_portfolio \<Rightarrow> rat list \<Rightarrow> bool" where
  "within_capacity port accepted =
     (length accepted = length (bids port) \<and>
      list_all (\<lambda>c. sum_list accepted \<le> c) (bid_constraints port))"

section \<open>Concrete inputs\<close>

text \<open>A configuration that gives \<^verbatim>\<open>nreload\<close> and leaves \<^verbatim>\<open>norder\<close> out.\<close>

definition cfg_reload3 :: config where
  "cfg_reload3 =
     \<lparr>incommodity = ''fresh'', inrecipe = ''uox'', outcommodity = ''spent'',
      outrecipe = ''spent_uox'', processtime = 3, nbatches = 4, batchsize = 2,
      refueltime = None, orderlookahead = None, norder = None, nreload = Some 3,
      initial_condition = None\<rparr>"

text \<open>A waiting facility with a full core, whose cycle ended at time 8 and whose
  refuelling takes 2 steps.\<close>

definition waiting_full :: facility where
  "waiting_full = BatchReactor\<lparr>phase := WAITING, start_time := 5, process_time := 3,
     refuel_time := 2, core := [Create 1 (Recipe ''uox'')]\<rparr>"

text \<open>A facility in its INITIAL phase that lacks part of its core, and one with two
  batches in storage facing two requests for its output.\<close>

definition initial_short :: facility where
  "initial_short = BatchReactor\<lparr>n_batches := 3, batch_size := 2, n_reserves := 2,
      core := [Create 2 (Recipe ''uox'')], spillover := CreateBlank 1\<rparr>"

definition stocked :: facility where
  "stocked = BatchReactor\<lparr>out_commodity := ''spent'', out_recipe := ''spent_uox'',
      storage := [Create 2 (Recipe ''spent_uox''), Create 2 (Recipe ''spent_uox'')]\<rparr>"

definition two_requests :: "string \<rightharpoonup> req list" where
  "two_requests =
     [''spent'' \<mapsto> [\<lparr>target = Create 3 (Recipe ''spent_uox''), commodity = ''spent''\<rparr>,
                   \<lparr>target = Create 5 (Recipe ''spent_uox''), commodity = ''spent''\<rparr>]]"

text \<open>A configuration whose load count exceeds its batch count, with the facility it
  gives once deployed and started at time 5; and a processing facility with two batches
  in its core, started at time 5.\<close>

definition cfg_overload :: config where
  "cfg_overload =
     \<lparr>incommodity = ''fresh'', inrecipe = ''uox'', outcommodity = ''spent'',
      outrecipe = ''spent_uox'', processtime = 3, nbatches = 1, batchsize = 2,
      refueltime = None, orderlookahead = None, norder = None, nreload = Some 2,
      initial_condition = Some (None, Some 1, None)\<rparr>"

definition short_core :: facility where
  "short_core =
     \<lparr>process_time = 3, preorder_time = 0, refuel_time = 0, start_time = 5,
      n_batches = 1, n_load = 2, n_reserves = 2, batch_size = 2,
      in_commodity = ''fresh'', in_recipe = ''uox'', out_commodity = ''spent'',
      out_recipe = ''spent_uox'', phase = PROCESS,
      ics = \<lparr>ic_n_reserves = 0, ic_n_core = 1, ic_n_storage = 0\<rparr>,
      reserves = [], core = [\<lparr>quantity = 2, comp = Recipe ''uox''\<rparr>], storage = [],
      spillover = \<lparr>quantity = 0, comp = Blank\<rparr>\<rparr>"

definition process_ready :: facility where
  "process_ready = BatchReactor\<lparr>phase := PROCESS, start_time := 5, process_time := 3,
     n_batches := 2, out_recipe := ''spent_uox'',
     core := [Create 1 (Recipe ''uox''), Create 1 (Recipe ''mox'')]\<rparr>"

text \<open>A facility with one batch in storage, and a step's worth of calls on it: a
  delivery of 3, a tock, a tick and a shipment of 1; \<open>trading_after\<close> is the facility
  they leave.\<close>

definition trading :: facility where
  "trading = BatchReactor\<lparr>batch_size := 2, n_batches := 1, out_recipe := ''spent_uox'',
      storage := [Create 2 (Recipe ''spent_uox'')]\<rparr>"

definition trading_events :: "event list" where
  "trading_events =
     [AcceptTrades [(\<lparr>request = 0, bid = 0, amt = 3\<rparr>, Create 3 (Recipe ''uox''))],
      Tock 0, Tick 1,
      GetTrades [\<lparr>request = 1, bid = 1, amt = 1\<rparr>]]"

definition trading_after :: facility where
  "trading_after = BatchReactor\<lparr>batch_size := 2, n_batches := 1, out_recipe := ''spent_uox'',
      start_time := 1, phase := PROCESS,
      core := [\<lparr>quantity = 2, comp = Mixed 0 Blank 3 (Recipe ''uox'')\<rparr>],
      storage := [\<lparr>quantity = 1, comp = Recipe ''spent_uox''\<rparr>],
      spillover := \<lparr>quantity = 1, comp = Mixed 0 Blank 3 (Recipe ''uox'')\<rparr>\<rparr>"

text \<open>A trade for one unit.\<close>

definition unit_trade :: trade where
  "unit_trade = \<lparr>request = 0, bid = 0, amt = 1\<rparr>"

text \<open>The invariant of the core: it holds no more batches than \<open>n_batches\<close>.\<close>

definition core_ok :: "facility \<Rightarrow> bool" where
  "core_ok f = (n_core f \<le> n_batches f)"

text \<open>A configuration with more batches in the initial core than \<open>nbatches\<close>, and one
  within it, with the facility this one gives after a tock and a tick.\<close>

definition cfg_overfull :: config where
  "cfg_overfull =
     \<lparr>incommodity = ''fresh'', inrecipe = ''uox'', outcommodity = ''spent'',
      outrecipe = ''spent_uox'', processtime = 3, nbatches = 1, batchsize = 2,
      refueltime = None, orderlookahead = None, norder = None, nreload = None,
      initial_condition = Some (None, Some 2, None)\<rparr>"

definition cfg_primed :: config where
  "cfg_primed =
     \<lparr>incommodity = ''fresh'', inrecipe = ''uox'', outcommodity = ''spent'',
      outrecipe = ''spent_uox'', processtime = 3, nbatches = 2, batchsize = 2,
      refueltime = None, orderlookahead = None, norder = None, nreload = None,
      initial_condition = Some (Some 3, Some 1, None)\<rparr>"

definition primed_after :: facility where
  "primed_after =
     \<lparr>process_time = 3, preorder_time = 0, refuel_time = 0, start_time = 1,
      n_batches = 2, n_load = 1, n_reserves = 1, batch_size = 2,
      in_commodity = ''fresh'', in_recipe = ''uox'', out_commodity = ''spent'',
      out_recipe = ''spent_uox'', phase = PROCESS,
      ics = \<lparr>ic_n_reserves = 3, ic_n_core = 1, ic_n_storage = 0\<rparr>,
      reserves = [\<lparr>quantity = 2, comp = Recipe ''uox''\<rparr>, \<lparr>quantity = 2, comp = Recipe ''uox''\<rparr>],
      core = [\<lparr>quantity = 2, comp = Recipe ''uox''\<rparr>, \<lparr>quantity = 2, comp = Recipe ''uox''\<rparr>],
      storage = [], spillover = \<lparr>quantity = 0, comp = Blank\<rparr>\<rparr>"





text \<open>A facility in its INITIAL phase with batches of the double nearest to 0.1 that
  holds the three batches of its core, one in the core and two in reserve, and orders
  with a lead time.\<close>

definition tenth_held :: facility where
  "tenth_held = BatchReactor\<lparr>n_batches := 3, batch_size := 3602879701896397 / 36028797018963968,
      preorder_time := 1,
      core := [Create (3602879701896397 / 36028797018963968) (Recipe ''uox'')],
      reserves := [Create (3602879701896397 / 36028797018963968) (Recipe ''uox''),
                   Create (3602879701896397 / 36028797018963968) (Recipe ''uox'')]\<rparr>"

text \<open>A facility in its INITIAL phase whose three batches together exceed every
  finite double.\<close>

definition huge_batches :: facility where
  "huge_batches = BatchReactor\<lparr>n_batches := 3, batch_size := 2 ^ 1023, preorder_time := 1\<rparr>"

text \<open>A configuration with the longest refuelling time an \<^verbatim>\<open>int\<close> holds, and the
  facility it gives once deployed, started at time 5, unloaded at time 8 and refuelled
  at the tock of time 8.\<close>

definition cfg_long_refuel :: config where
  "cfg_long_refuel =
     \<lparr>incommodity = ''fresh'', inrecipe = ''uox'', outcommodity = ''spent'',
      outrecipe = ''spent_uox'', processtime = 3, nbatches = 1, batchsize = 2,
      refueltime = Some 2147483647, orderlookahead = None, norder = None, nreload = None,
      initial_condition = Some (Some 1, Some 1, None)\<rparr>"

definition refuelled :: facility where
  "refuelled =
     \<lparr>process_time = 3, preorder_time = 0, refuel_time = 2147483647, start_time = 5,
      n_batches = 1, n_load = 1, n_reserves = 1, batch_size = 2,
      in_commodity = ''fresh'', in_recipe = ''uox'', out_commodity = ''spent'',
      out_recipe = ''spent_uox'', phase = WAITING,
      ics = \<lparr>ic_n_reserves = 1, ic_n_core = 1, ic_n_storage = 0\<rparr>,
      reserves = [], core = [\<lparr>quantity = 2, comp = Recipe ''uox''\<rparr>],
      storage = [\<lparr>quantity = 2, comp = Recipe ''spent_uox''\<rparr>],
      spillover = \<lparr>quantity = 0, comp = Blank\<rparr>\<rparr>"

section \<open>Properties\<close>

subsection \<open>Configuration\<close>

lemma InitModuleMembers_n_load:
  "n_load (InitModuleMembers qe f) = GetOptionalQuery (nreload qe) (n_load f)"
  by (simp add: InitModuleMembers_def Let_def)

lemma InitModuleMembers_n_reserves:
  "n_reserves (InitModuleMembers qe f) =
     GetOptionalQuery (norder qe) (GetOptionalQuery (nreload qe) (n_load f))"
  by (simp add: InitModuleMembers_def Let_def)

lemma nreload_absent_keeps_n_load:
  "nreload qe = None \<Longrightarrow> n_load (InitModuleMembers qe BatchReactor) = 1"
  by (simp add: InitModuleMembers_n_load GetOptionalQuery_def BatchReactor_def)

text \<open>
  C8. With \<^verbatim>\<open>norder\<close> absent the reserve target should be its default 1, whatever
  \<^verbatim>\<open>nreload\<close> is. \<^verbatim>\<open>InitModuleMembers\<close> reads \<^verbatim>\<open>norder\<close> with the load count, just set
  from \<^verbatim>\<open>nreload\<close>, as its default: for a freshly constructed facility and a
  configuration with \<^verbatim>\<open>nreload\<close> 3 and no \<^verbatim>\<open>norder\<close>, the reserve target is 3 and not
  the constructor's 1.
\<close>

theorem norder_absent_takes_nreload:
  "norder cfg_reload3 = None \<and>
   n_reserves (InitModuleMembers cfg_reload3 BatchReactor) = 3 \<and>
   n_reserves (InitModuleMembers cfg_reload3 BatchReactor) \<noteq> n_reserves BatchReactor \<and>
   n_reserves BatchReactor = 1"
  by (simp add: InitModuleMembers_n_reserves GetOptionalQuery_def cfg_reload3_def BatchReactor_def)

subsection \<open>Phase transitions\<close>

lemma int_add_in_range:
  "- 2147483648 \<le> a + b \<Longrightarrow> a + b \<le> 2147483647 \<Longrightarrow> int_add a b = a + b"
  by (simp add: int_add_def)

text \<open>
  C4. In the WAITING phase a tick at clock time \<open>t\<close> returns normally, and the phase
  becomes PROCESSING exactly when the core holds \<open>n_batches\<close> batches and the
  \<^verbatim>\<open>int\<close> sum of \<open>end_time\<close> and \<open>refuel_time\<close> is at most \<open>t\<close>; otherwise the
  facility is unchanged. When \<open>end_time + refuel_time\<close> is a value of an \<^verbatim>\<open>int\<close>
  (between \<open>-2\<^sup>3\<^sup>1\<close> and \<open>2\<^sup>3\<^sup>1 - 1\<close>), that is exactly when the core holds
  \<open>n_batches\<close> batches and \<open>end_time + refuel_time \<le> t\<close>, and before
  \<open>end_time + refuel_time\<close> the phase stays WAITING, full core or not. The source reads
  the clock \<^verbatim>\<open>context()->time()\<close> here, which the scheduler also passes as the argument
  (\<open>time\<close>).
\<close>

theorem HandleTick_WAITING:
  assumes "phase f = WAITING"
  shows "\<exists>f'. HandleTick t time f = Inr f' \<and>
           (phase f' = PROCESS \<longleftrightarrow>
              count (core f) = n_batches f \<and> int_add (end_time f) (refuel_time f) \<le> t) \<and>
           (phase f' = PROCESS \<or> f' = f) \<and>
           (- 2147483648 \<le> end_time f + refuel_time f \<and>
            end_time f + refuel_time f \<le> 2147483647 \<longrightarrow>
              (phase f' = PROCESS \<longleftrightarrow>
                 count (core f) = n_batches f \<and> end_time f + refuel_time f \<le> t) \<and>
              (t < end_time f + refuel_time f \<longrightarrow> phase f' = WAITING))"
proof (cases "- 2147483648 \<le> end_time f + refuel_time f \<and>
    end_time f + refuel_time f \<le> 2147483647")
  case True
  then have "int_add (end_time f) (refuel_time f) = end_time f + refuel_time f"
    by (simp add: int_add_in_range)
  with assms show ?thesis by (simp add: HandleTick_def set_phase_def n_core_def)
next
  case False
  with assms show ?thesis by (auto simp: HandleTick_def set_phase_def n_core_def)
qed

theorem HandleTick_WAITING_witness:
  "phase waiting_full = WAITING \<and> end_time waiting_full + refuel_time waiting_full = 10 \<and>
   phase (state_of (HandleTick 9 9 waiting_full)) = WAITING \<and>
   phase (state_of (HandleTick 10 10 waiting_full)) = PROCESS"
  using HandleTick_WAITING [of waiting_full 9 9] HandleTick_WAITING [of waiting_full 10 10]
  by (auto simp: waiting_full_def BatchReactor_def state_of_def count_def end_time_def)

text \<open>The claim C4 as it is written compares \<open>end_time + refuel_time\<close> with the time.
  With the refuelling time 2147483647 of \<open>cfg_long_refuel\<close> the facility, deployed
  with one batch in its core and one in reserve, processes from time 5, unloads at
  time 8 and is refuelled at the tock of time 8. Its \<open>end_time + refuel_time\<close> is
  2147483655, but the \<^verbatim>\<open>int\<close> sum has wrapped around, and the tick of time 9 resumes
  PROCESSING.\<close>

theorem refuel_gate_wraps:
  "run [Tick 5, Tick 8, Tock 8] (Deploy 0 (InitModuleMembers cfg_long_refuel BatchReactor)) =
     Some (Inr refuelled) \<and>
   phase refuelled = WAITING \<and> count (core refuelled) = n_batches refuelled \<and>
   end_time refuelled + refuel_time refuelled = 2147483655 \<and>
   \<not> end_time refuelled + refuel_time refuelled \<le> 9 \<and>
   phase (state_of (HandleTick 9 9 refuelled)) = PROCESS"
proof -
  have "run [Tick 5, Tick 8, Tock 8] (Deploy 0 (InitModuleMembers cfg_long_refuel BatchReactor)) =
     Some (Inr refuelled)"
    by code_simp
  moreover have "phase (state_of (HandleTick 9 9 refuelled)) = PROCESS"
    by (simp add: HandleTick_def refuelled_def n_core_def count_def end_time_def int_add_def
        set_phase_def state_of_def)
  ultimately show ?thesis
    by (simp add: refuelled_def count_def end_time_def)
qed

subsection \<open>Requests\<close>

lemma bits_nonneg: "0 \<le> bits n"
proof (induction n rule: bits.induct)
  case (1 n)
  then show ?case by (subst bits.simps) simp
qed

lemma bits_pos: "0 < n \<Longrightarrow> 1 \<le> bits n"
  using bits_nonneg [of "n div 2"] by (subst bits.simps) simp

lemma bits_bounds: "0 < n \<Longrightarrow> 2 ^ nat (bits n - 1) \<le> n \<and> n < 2 ^ nat (bits n)"
proof (induction n rule: bits.induct)
  case (1 n)
  show ?case
  proof (cases "0 < n div 2")
    case False
    with "1.prems" have "n = 1" by (simp add: div_pos_pos_trivial)
    then show ?thesis by (simp add: bits.simps [of 1] bits.simps [of 0])
  next
    case True
    let ?b = "bits (n div 2)"
    from "1.IH" True "1.prems" have ih: "2 ^ nat (?b - 1) \<le> n div 2" "n div 2 < 2 ^ nat ?b"
      by auto
    have b1: "1 \<le> ?b" using bits_pos [OF True] .
    have bn: "bits n = 1 + ?b" using "1.prems" by (subst bits.simps) simp
    have p: "(2::int) ^ nat ?b = 2 * 2 ^ nat (?b - 1)"
      using b1 by (metis Suc_nat_eq_nat_zadd1 add.commute diff_add_cancel diff_ge_0_iff_ge power_Suc)
    have p2: "(2::int) ^ nat (1 + ?b) = 2 * 2 ^ nat ?b"
      using b1 by (simp add: nat_add_distrib)
    have "2 ^ nat ?b \<le> n" using ih(1) p by linarith
    moreover have "n < 2 ^ nat (1 + ?b)" using ih(2) p2 by linarith
    ultimately show ?thesis by (simp add: bn)
  qed
qed

lemma powi_of_bits:
  assumes "0 < n"
  shows "(2::rat) powi (bits n - 1) \<le> of_int n" and "of_int n < (2::rat) powi (bits n)"
proof -
  from bits_bounds [OF assms] have a: "2 ^ nat (bits n - 1) \<le> n" and b: "n < 2 ^ nat (bits n)"
    by auto
  have b1: "1 \<le> bits n" using bits_pos [OF assms] .
  from a have "(of_int (2 ^ nat (bits n - 1)) :: rat) \<le> of_int n" by (simp only: of_int_le_iff)
  then show "(2::rat) powi (bits n - 1) \<le> of_int n" using b1 by (simp add: power_int_def)
  from b have "(of_int n :: rat) < of_int (2 ^ nat (bits n))" by (simp only: of_int_less_iff)
  then show "of_int n < (2::rat) powi (bits n)" using b1 by (simp add: power_int_def)
qed

text \<open>\<open>ilog2\<close> is the binary exponent.\<close>

lemma ilog2_bounds:
  assumes "0 < a"
  shows "2 powi (ilog2 a) \<le> a \<and> a < 2 powi (ilog2 a + 1)"
proof -
  obtain p q where pq: "quotient_of a = (p, q)" by (cases "quotient_of a")
  then have q: "0 < q" and a: "a = of_int p / of_int q"
    by (simp_all add: quotient_of_denom_pos quotient_of_div)
  have p: "0 < p" using assms a q by (simp add: zero_less_divide_iff)
  let ?k = "bits p - bits q"
  have qr: "(0::rat) < of_int q" using q by simp
  have lo: "2 powi (?k - 1) \<le> a"
  proof -
    have "(2::rat) powi (?k - 1) = 2 powi (bits p - 1) / 2 powi (bits q)"
      by (simp add: power_int_diff [symmetric] algebra_simps)
    also have "\<dots> \<le> of_int p / 2 powi (bits q)"
      using powi_of_bits(1) [OF p] by (simp add: divide_right_mono)
    also have "\<dots> \<le> of_int p / of_int q"
      using powi_of_bits(2) [OF q] p qr by (simp add: frac_le)
    finally show ?thesis using a by simp
  qed
  have hi: "a < 2 powi (?k + 1)"
  proof -
    have q1: "(0::rat) < 2 powi (bits q - 1)" by simp
    have "a = of_int p / of_int q" by (rule a)
    also have "\<dots> \<le> of_int p / 2 powi (bits q - 1)"
      using powi_of_bits(1) [OF q] p q1 by (simp add: frac_le)
    also have "\<dots> < 2 powi (bits p) / 2 powi (bits q - 1)"
      using powi_of_bits(2) [OF p] q1 by (simp add: divide_strict_right_mono)
    also have "\<dots> = 2 powi (?k + 1)"
      by (simp add: power_int_diff [symmetric] algebra_simps)
    finally show ?thesis .
  qed
  show ?thesis
  proof (cases "2 powi ?k \<le> a")
    case True
    then have "ilog2 a = ?k" by (simp add: ilog2_def pq)
    with True hi show ?thesis by simp
  next
    case False
    then have "ilog2 a = ?k - 1" by (simp add: ilog2_def pq)
    with False lo show ?thesis by simp
  qed
qed

lemma ilog2_ge:
  assumes "0 < a" "2 powi k \<le> a"
  shows "k \<le> ilog2 a"
proof (rule ccontr)
  assume "\<not> k \<le> ilog2 a"
  then have "ilog2 a + 1 \<le> k" by simp
  then have "(2::rat) powi (ilog2 a + 1) \<le> 2 powi k"
    by (simp add: power_int_increasing)
  with ilog2_bounds [OF assms(1)] assms(2) show False by simp
qed

lemma round_double_overflow:
  assumes "2 powi 1024 \<le> \<bar>x\<bar>"
  shows "round_double x = (if 0 < x then PInf else NInf)"
proof -
  have "(0::rat) < 2 powi 1024" by simp
  with assms have pos: "0 < \<bar>x\<bar>" by linarith
  then have "x \<noteq> 0" by simp
  moreover have "1024 \<le> ilog2 \<bar>x\<bar>" using ilog2_ge [OF pos assms] .
  ultimately show ?thesis by (simp add: round_double_def)
qed

lemma ilog2_unique:
  assumes "2 powi k \<le> a" "a < 2 powi (k + 1)"
  shows "ilog2 a = k"
proof -
  have "(0::rat) < 2 powi k" by simp
  with assms(1) have pos: "0 < a" by linarith
  have "k \<le> ilog2 a" using ilog2_ge [OF pos assms(1)] .
  moreover have "ilog2 a \<le> k"
  proof (rule ccontr)
    assume "\<not> ilog2 a \<le> k"
    then have "k + 1 \<le> ilog2 a" by simp
    then have "(2::rat) powi (k + 1) \<le> 2 powi (ilog2 a)" by (simp add: power_int_increasing)
    with ilog2_bounds [OF pos] assms(2) show False by simp
  qed
  ultimately show ?thesis by simp
qed

lemma round_double_power: "round_double (2 ^ 1023) = Num (2 ^ 1023)"
proof -
  define B :: rat where "B = 2 ^ 1023"
  have B: "B = 2 powi 1023" by (simp add: B_def power_int_def)
  have "B < 2 powi (1023 + 1)" unfolding B by (rule power_int_strict_increasing) simp_all
  with B have i: "ilog2 B = 1023" by (intro ilog2_unique) simp_all
  have pos: "0 < B" by (simp add: B_def)
  have "(2::rat) powi (1023 - 971) = 2 powi 1023 / 2 powi 971"
    by (rule power_int_diff) simp
  then have d: "B / 2 powi 971 = 2 ^ 52"
    unfolding B by (simp add: power_int_def)
  have r: "round_half_even (2 ^ 52) = 2 ^ 52" by (simp add: round_half_even_def)
  have "(2::rat) powi (52 + 971) = 2 powi 52 * 2 powi 971"
    by (rule power_int_add) simp
  then have m: "(2::rat) ^ 52 * 2 powi 971 = B" unfolding B by (simp add: power_int_def)
  have "round_double B = Num B"
    using i pos d r m by (simp add: round_double_def Let_def)
  then show ?thesis by (simp add: B_def)
qed

lemma dmul_commute: "dmul x y = dmul y x"
  by (cases x; cases y) (simp_all add: dmul_def mult.commute)

text \<open>The double nearest to 0.1, a tie that goes to the even significand, and the
  sum \<open>3 \<cdot> 0.1 - 0.1 - 0.2\<close> in doubles.\<close>

lemma round_double_tenth:
  "round_double (1 / 10) = Num (3602879701896397 / 36028797018963968)"
  by code_simp

lemma round_double_tie: "round_double (2 ^ 53 + 1) = Num (2 ^ 53)"
  by code_simp

lemma three_tenths:
  "dsub (dsub (dmul (Num 3) (round_double (1 / 10))) (round_double (1 / 10)))
        (dadd (round_double (1 / 10)) (round_double (1 / 10))) = Num (1 / 2 ^ 55)"
  by code_simp

lemma GetMatlRequests_initial_eq:
  assumes "phase f = INITIAL"
  shows "GetMatlRequests t f =
           (if dpos (need_in_doubles f)
            then [\<lparr>requests = [\<lparr>order_target = \<lparr>order_quantity = need_in_doubles f,
                                                 order_comp = Recipe (in_recipe f)\<rparr>,
                                order_commodity = in_commodity f\<rparr>],
                   req_constraints = [need_in_doubles f]\<rparr>]
            else [])"
  using assms
  by (simp add: GetMatlRequests_def need_in_doubles_def Let_def GetOrder_def GetRecipe_def
      dmul_commute [of "to_double (batch_size f)"])

lemma GetMatlRequests_positive:
  "list_all (\<lambda>p. list_all (\<lambda>r. dpos (order_quantity (order_target r))) (requests p))
     (GetMatlRequests t f)"
  by (simp add: GetMatlRequests_def Let_def GetOrder_def split: Phase.splits)

text \<open>A product that exceeds every finite double is infinite, and so is the order.\<close>

lemma infinite_order:
  "GetMatlRequests 0 huge_batches = [GetOrder PInf huge_batches]"
proof -
  define B :: rat where "B = 2 ^ 1023"
  have f: "phase huge_batches = INITIAL" "n_batches huge_batches = 3"
    "preorder_time huge_batches = 1" "batch_size huge_batches = B"
    "buff_quantity (core huge_batches) = 0" "buff_quantity (reserves huge_batches) = 0"
    "quantity (spillover huge_batches) = 0"
    by (simp_all add: huge_batches_def BatchReactor_def B_def buff_quantity_def CreateBlank_def)
  have b: "to_double B = Num B"
    using round_double_power by (simp add: to_double_def B_def)
  have n: "int_to_double 3 = Num 3" by code_simp
  have "(2::rat) powi 1024 = 2 * B" by (simp add: power_int_def B_def)
  moreover have "0 < B" by (simp add: B_def)
  ultimately have "(2::rat) powi 1024 \<le> \<bar>3 * B\<bar>" by simp
  from round_double_overflow [OF this] \<open>0 < B\<close> have o: "dmul (Num 3) (Num B) = PInf"
    by (simp add: dmul_def)
  have z: "to_double 0 = Num 0" by (simp add: to_double_def round_double_def)
  show ?thesis
    by (simp add: GetMatlRequests_def Let_def f b n o z dsub_def dpos_def)
qed

text \<open>
  C7. In the INITIAL phase \<^verbatim>\<open>GetMatlRequests\<close> emits exactly one request portfolio, with
  one request of size \<open>need\<close> for the input recipe and commodity and the capacity
  constraint \<open>need\<close>, when \<open>need > 0\<close>, and nothing otherwise, where \<open>need\<close> is the
  full core less the quantities of core, reserves and spillover, plus the reserve target
  when the preorder time is 0, each operation being that of doubles, which rounds its
  result to the nearest double, as the source computes it. In every phase, every
  request emitted has a quantity above 0.
\<close>

theorem GetMatlRequests_INITIAL:
  "(phase f = INITIAL \<longrightarrow>
      GetMatlRequests t f =
        (if dpos (need_in_doubles f)
         then [\<lparr>requests = [\<lparr>order_target = \<lparr>order_quantity = need_in_doubles f,
                                              order_comp = Recipe (in_recipe f)\<rparr>,
                             order_commodity = in_commodity f\<rparr>],
                req_constraints = [need_in_doubles f]\<rparr>]
         else [])) \<and>
   (\<forall>p \<in> set (GetMatlRequests t f). \<forall>r \<in> set (requests p).
      dpos (order_quantity (order_target r)))"
  using GetMatlRequests_initial_eq [of f t] GetMatlRequests_positive [of t f]
  by (simp add: list_all_iff)

theorem GetMatlRequests_INITIAL_witness:
  "phase initial_short = INITIAL \<and> need_in_doubles initial_short = Num 7 \<and>
   GetMatlRequests 0 initial_short =
     [\<lparr>requests = [\<lparr>order_target = \<lparr>order_quantity = Num 7, order_comp = Recipe ''''\<rparr>,
                     order_commodity = ''''\<rparr>],
       req_constraints = [Num 7]\<rparr>] \<and>
   phase tenth_held = INITIAL \<and> need_in_doubles tenth_held = Num (1 / 2 ^ 55) \<and>
   GetMatlRequests 0 tenth_held =
     [\<lparr>requests = [\<lparr>order_target = \<lparr>order_quantity = Num (1 / 2 ^ 55), order_comp = Recipe ''''\<rparr>,
                     order_commodity = ''''\<rparr>],
       req_constraints = [Num (1 / 2 ^ 55)]\<rparr>]"
proof -
  have p: "phase initial_short = INITIAL" "phase tenth_held = INITIAL"
    by (simp_all add: initial_short_def tenth_held_def BatchReactor_def)
  have n: "need_in_doubles initial_short = Num 7" "need_in_doubles tenth_held = Num (1 / 2 ^ 55)"
    by code_simp+
  from GetMatlRequests_INITIAL [of initial_short 0] GetMatlRequests_INITIAL [of tenth_held 0] p n
  show ?thesis
    by (simp add: dpos_def initial_short_def tenth_held_def BatchReactor_def)
qed

text \<open>The claim C7 as it is written takes the need as the value of the expression. The
  facility \<open>tenth_held\<close> has batches of the double nearest to 0.1 and holds its three
  batches: the expression has the value 0, which is not above 0. In doubles the product
  \<open>3 \<cdot> 0.1\<close> is rounded up, the need computed is \<open>2\<^sup>-\<^sup>5\<^sup>5\<close>, and a request of that
  size is emitted.\<close>

theorem rounded_need_emits:
  "phase tenth_held = INITIAL \<and> spec_need tenth_held = 0 \<and> \<not> 0 < spec_need tenth_held \<and>
   GetMatlRequests 0 tenth_held =
     [\<lparr>requests = [\<lparr>order_target = \<lparr>order_quantity = Num (1 / 2 ^ 55), order_comp = Recipe ''''\<rparr>,
                     order_commodity = ''''\<rparr>],
       req_constraints = [Num (1 / 2 ^ 55)]\<rparr>]"
proof -
  have "spec_need tenth_held = 0"
    by (simp add: spec_need_def tenth_held_def BatchReactor_def buff_quantity_def Create_def
        CreateBlank_def)
  moreover have "GetMatlRequests 0 tenth_held =
     [\<lparr>requests = [\<lparr>order_target = \<lparr>order_quantity = Num (1 / 2 ^ 55), order_comp = Recipe ''''\<rparr>,
                     order_commodity = ''''\<rparr>],
       req_constraints = [Num (1 / 2 ^ 55)]\<rparr>]"
    by code_simp
  ultimately show ?thesis
    by (simp add: tenth_held_def BatchReactor_def)
qed

subsection \<open>Bids\<close>

lemma GetMatlBids_Some:
  "cr (out_commodity f) = Some rqs \<Longrightarrow> buff_quantity (storage f) > 0 \<Longrightarrow>
   \<exists>port. GetMatlBids cr f = [port] \<and> map bid_request (bids port) = rqs \<and>
     map offer (bids port) =
       map (\<lambda>rq. \<lparr>quantity = min (quantity (target rq)) (buff_quantity (storage f)),
                    comp = Recipe (out_recipe f)\<rparr>) rqs \<and>
     bid_constraints port = [buff_quantity (storage f)]"
  by (simp add: GetMatlBids_def CreateUntracked_def GetRecipe_def o_def)

lemma GetMatlBids_empty:
  "cr (out_commodity f) = None \<or> \<not> buff_quantity (storage f) > 0 \<Longrightarrow> GetMatlBids cr f = []"
  by (auto simp: GetMatlBids_def split: option.splits)

text \<open>
  C6. \<^verbatim>\<open>GetMatlBids\<close> returns a portfolio exactly when there are requests filed under the
  output commodity and the storage holds a quantity above 0. There is then one
  portfolio: its bids answer those requests in order, each offering the smaller of
  the requested quantity and the storage's quantity, of the output recipe; its only
  constraint is the storage's quantity, so amounts accepted within the constraint sum
  to no more than the storage holds.
\<close>

theorem GetMatlBids_shared_capacity:
  "(GetMatlBids cr f \<noteq> [] \<longleftrightarrow> cr (out_commodity f) \<noteq> None \<and> buff_quantity (storage f) > 0) \<and>
   (\<forall>port \<in> set (GetMatlBids cr f).
      GetMatlBids cr f = [port] \<and>
      cr (out_commodity f) = Some (map bid_request (bids port)) \<and>
      (\<forall>b \<in> set (bids port).
         offer b = \<lparr>quantity = min (quantity (target (bid_request b))) (buff_quantity (storage f)),
                    comp = Recipe (out_recipe f)\<rparr>) \<and>
      bid_constraints port = [buff_quantity (storage f)] \<and>
      (\<forall>accepted. within_capacity port accepted \<longrightarrow>
         sum_list accepted \<le> buff_quantity (storage f)))"
proof (cases "cr (out_commodity f) = None \<or> \<not> buff_quantity (storage f) > 0")
  case True
  then show ?thesis using GetMatlBids_empty [of cr f] by auto
next
  case False
  then obtain rqs where rqs: "cr (out_commodity f) = Some rqs"
    and pos: "buff_quantity (storage f) > 0"
    by auto
  from GetMatlBids_Some [of cr f rqs, OF rqs pos] obtain port where
    port: "GetMatlBids cr f = [port]" "map bid_request (bids port) = rqs"
      "map offer (bids port) =
         map (\<lambda>rq. \<lparr>quantity = min (quantity (target rq)) (buff_quantity (storage f)),
                      comp = Recipe (out_recipe f)\<rparr>) rqs"
      "bid_constraints port = [buff_quantity (storage f)]"
    by blast
  have offers: "offer b =
      \<lparr>quantity = min (quantity (target (bid_request b))) (buff_quantity (storage f)),
       comp = Recipe (out_recipe f)\<rparr>" if "b \<in> set (bids port)" for b
  proof -
    from that obtain i where i: "i < length (bids port)" "bids port ! i = b"
      by (auto simp: in_set_conv_nth)
    have "offer b = map offer (bids port) ! i" using i by simp
    also have "\<dots> =
        map (\<lambda>rq. \<lparr>quantity = min (quantity (target rq)) (buff_quantity (storage f)),
                     comp = Recipe (out_recipe f)\<rparr>) (map bid_request (bids port)) ! i"
      using port(2,3) by simp
    also have "\<dots> =
        \<lparr>quantity = min (quantity (target (bid_request b))) (buff_quantity (storage f)),
         comp = Recipe (out_recipe f)\<rparr>"
      using i by simp
    finally show ?thesis .
  qed
  show ?thesis
    using rqs pos port(1,2,4) offers by (auto simp: within_capacity_def)
qed

theorem GetMatlBids_shared_capacity_witness:
  "GetMatlBids two_requests stocked =
     [\<lparr>bids = [\<lparr>bid_request = \<lparr>target = Create 3 (Recipe ''spent_uox''), commodity = ''spent''\<rparr>,
                 offer = \<lparr>quantity = 3, comp = Recipe ''spent_uox''\<rparr>\<rparr>,
               \<lparr>bid_request = \<lparr>target = Create 5 (Recipe ''spent_uox''), commodity = ''spent''\<rparr>,
                 offer = \<lparr>quantity = 4, comp = Recipe ''spent_uox''\<rparr>\<rparr>],
       bid_constraints = [4]\<rparr>] \<and>
   within_capacity (hd (GetMatlBids two_requests stocked)) [3, 1] \<and>
   sum_list [3, 1] \<le> buff_quantity (storage stocked)"
  using GetMatlBids_shared_capacity [of two_requests stocked]
  by (simp add: GetMatlBids_def two_requests_def stocked_def BatchReactor_def Create_def
      CreateUntracked_def GetRecipe_def buff_quantity_def within_capacity_def)

subsection \<open>Unloading\<close>

lemma unload_enough:
  "k \<le> length (core f) \<Longrightarrow>
   unload k f = Inr (f\<lparr>core := drop k (core f),
                       storage := storage f @ map (\<lambda>m. m\<lparr>comp := Recipe (out_recipe f)\<rparr>) (take k (core f))\<rparr>)"
proof (induction k arbitrary: f)
  case 0
  then show ?case by simp
next
  case (Suc k)
  then obtain m rest where c: "core f = m # rest" by (cases "core f") auto
  let ?f1 = "f\<lparr>core := rest, storage := storage f @ [m\<lparr>comp := Recipe (out_recipe f)\<rparr>]\<rparr>"
  have mb: "MoveBatchOut f = Inr ?f1"
    by (simp add: MoveBatchOut_def Pop_def c Push_def Transmute_def GetRecipe_def)
  have "k \<le> length (core ?f1)" using Suc.prems c by simp
  from Suc.IH [OF this] show ?case by (simp add: mb c)
qed

lemma unload_short:
  "length (core f) < k \<Longrightarrow>
   unload k f = Inl (Error (''BatchReactor experience an error: '' @ pop_what),
                     f\<lparr>core := [],
                       storage := storage f @ map (\<lambda>m. m\<lparr>comp := Recipe (out_recipe f)\<rparr>) (core f)\<rparr>)"
proof (induction k arbitrary: f)
  case 0
  then show ?case by simp
next
  case (Suc k)
  show ?case
  proof (cases "core f")
    case Nil
    then show ?thesis by (simp add: MoveBatchOut_def Pop_def wrap_def)
  next
    case (Cons m rest)
    let ?f1 = "f\<lparr>core := rest, storage := storage f @ [m\<lparr>comp := Recipe (out_recipe f)\<rparr>]\<rparr>"
    have mb: "MoveBatchOut f = Inr ?f1"
      by (simp add: MoveBatchOut_def Pop_def Cons Push_def Transmute_def GetRecipe_def)
    have "length (core ?f1) < k" using Suc.prems Cons by simp
    from Suc.IH [OF this] show ?thesis by (simp add: mb Cons)
  qed
qed

lemma deploy_over: "Deploy 0 (InitModuleMembers cfg_overload BatchReactor) = short_core\<lparr>phase := INITIAL, start_time := -1\<rparr>"
  by (simp add: Deploy_def InitModuleMembers_def cfg_overload_def BatchReactor_def short_core_def
     Let_def set_phase_def GetOptionalQuery_def CreateBlank_def Create_def GetRecipe_def Push_def
     numeral_eq_Suc)

text \<open>
  C3. In the PROCESSING phase a tick at a time other than \<open>end_time\<close> leaves the
  facility as it is: nothing is unloaded. At \<open>end_time\<close>, when the core holds at least
  \<open>n_load\<close> batches, the tick moves the first \<open>n_load\<close> batches of the core to the
  back of the storage, each with the output recipe as its composition, and then sets
  the phase to WAITING. When the core holds fewer, the tick moves what the core holds
  and throws the wrapped buffer error; the phase is still PROCESSING in the state it
  leaves. So the phase becomes WAITING exactly when the time is \<open>end_time\<close> and the
  core holds \<open>n_load\<close> batches.
\<close>

theorem HandleTick_PROCESS:
  assumes "phase f = PROCESS"
  shows "(time \<noteq> end_time f \<longrightarrow> HandleTick t time f = Inr f) \<and>
         (time = end_time f \<and> nat (n_load f) \<le> length (core f) \<longrightarrow>
            HandleTick t time f =
              Inr (f\<lparr>core := drop (nat (n_load f)) (core f),
                     storage := storage f @
                        map (\<lambda>m. m\<lparr>comp := Recipe (out_recipe f)\<rparr>) (take (nat (n_load f)) (core f)),
                     phase := WAITING\<rparr>)) \<and>
         (time = end_time f \<and> length (core f) < nat (n_load f) \<longrightarrow>
            HandleTick t time f =
              Inl (Error (''BatchReactor experience an error: '' @ pop_what),
                   f\<lparr>core := [],
                     storage := storage f @ map (\<lambda>m. m\<lparr>comp := Recipe (out_recipe f)\<rparr>) (core f)\<rparr>)) \<and>
         (phase (state_of (HandleTick t time f)) = WAITING \<longleftrightarrow>
            time = end_time f \<and> nat (n_load f) \<le> length (core f))"
proof -
  have 1: "time \<noteq> end_time f \<Longrightarrow> HandleTick t time f = Inr f"
    using assms by (simp add: HandleTick_def)
  have 2: "HandleTick t time f =
              Inr (f\<lparr>core := drop (nat (n_load f)) (core f),
                     storage := storage f @
                        map (\<lambda>m. m\<lparr>comp := Recipe (out_recipe f)\<rparr>) (take (nat (n_load f)) (core f)),
                     phase := WAITING\<rparr>)"
    if "time = end_time f" "nat (n_load f) \<le> length (core f)"
    using assms that unload_enough [of "nat (n_load f)" f]
    by (simp add: HandleTick_def set_phase_def)
  have 3: "HandleTick t time f =
              Inl (Error (''BatchReactor experience an error: '' @ pop_what),
                   f\<lparr>core := [],
                     storage := storage f @ map (\<lambda>m. m\<lparr>comp := Recipe (out_recipe f)\<rparr>) (core f)\<rparr>)"
    if "time = end_time f" "length (core f) < nat (n_load f)"
    using assms that unload_short [of f "nat (n_load f)"]
    by (simp add: HandleTick_def)
  have 4: "phase (state_of (HandleTick t time f)) = WAITING \<longleftrightarrow>
            time = end_time f \<and> nat (n_load f) \<le> length (core f)"
  proof (cases "time = end_time f")
    case False
    then show ?thesis using 1 assms by (simp add: state_of_def)
  next
    case True
    show ?thesis
    proof (cases "nat (n_load f) \<le> length (core f)")
      case True
      with 2 \<open>time = end_time f\<close> show ?thesis by (simp add: state_of_def)
    next
      case False
      with 3 \<open>time = end_time f\<close> assms show ?thesis by (simp add: state_of_def)
    qed
  qed
  from 1 2 3 4 show ?thesis by blast
qed

theorem HandleTick_PROCESS_witness:
  "phase process_ready = PROCESS \<and> end_time process_ready = 8 \<and>
   HandleTick 7 7 process_ready = Inr process_ready \<and>
   HandleTick 8 8 process_ready =
     Inr (process_ready\<lparr>core := [Create 1 (Recipe ''mox'')],
            storage := [\<lparr>quantity = 1, comp = Recipe ''spent_uox''\<rparr>], phase := WAITING\<rparr>) \<and>
   phase short_core = PROCESS \<and> end_time short_core = 8 \<and>
   length (core short_core) < nat (n_load short_core) \<and>
   HandleTick 8 8 short_core =
     Inl (Error (''BatchReactor experience an error: '' @ pop_what),
          short_core\<lparr>core := [], storage := [\<lparr>quantity = 2, comp = Recipe ''spent_uox''\<rparr>]\<rparr>)"
proof -
  have "phase process_ready = PROCESS \<and> end_time process_ready = 8 \<and>
   HandleTick 7 7 process_ready = Inr process_ready \<and>
   HandleTick 8 8 process_ready =
     Inr (process_ready\<lparr>core := [Create 1 (Recipe ''mox'')],
            storage := [\<lparr>quantity = 1, comp = Recipe ''spent_uox''\<rparr>], phase := WAITING\<rparr>)"
    using HandleTick_PROCESS [of process_ready 7 7] HandleTick_PROCESS [of process_ready 8 8]
    by (simp add: process_ready_def BatchReactor_def end_time_def Create_def)
  moreover have "phase short_core = PROCESS \<and> end_time short_core = 8 \<and>
   length (core short_core) < nat (n_load short_core) \<and>
   HandleTick 8 8 short_core =
     Inl (Error (''BatchReactor experience an error: '' @ pop_what),
          short_core\<lparr>core := [], storage := [\<lparr>quantity = 2, comp = Recipe ''spent_uox''\<rparr>]\<rparr>)"
    using HandleTick_PROCESS [of short_core 8 8]
    by (simp add: short_core_def end_time_def)
  ultimately show ?thesis by simp
qed

text \<open>The claim C3 as it is written (WAITING if and only if the time is \<open>end_time\<close>)
  fails for the configuration \<open>cfg_overload\<close>: deployed with one batch in a core of
  one batch, the facility starts processing at the tick of time 5; at time 8, its
  \<open>end_time\<close>, the tick unloads the one batch, throws on the second, and the phase is
  not WAITING.\<close>

theorem tick_at_end_time_throws:
  "run [Tick 5] (Deploy 0 (InitModuleMembers cfg_overload BatchReactor)) = Some (Inr short_core) \<and>
   phase short_core = PROCESS \<and> end_time short_core = 8 \<and>
   HandleTick 8 8 short_core =
     Inl (Error ''BatchReactor experience an error: cannot pop material from an empty store.'',
          short_core\<lparr>core := [], storage := [\<lparr>quantity = 2, comp = Recipe ''spent_uox''\<rparr>]\<rparr>) \<and>
   phase (state_of (HandleTick 8 8 short_core)) \<noteq> WAITING"
  by (simp add: deploy_over)
     (simp add: step_def HandleTick_def short_core_def n_core_def count_def set_phase_def
       end_time_def numeral_eq_Suc MoveBatchOut_def Pop_def Push_def Transmute_def GetRecipe_def
       wrap_def pop_what_def state_of_def)

subsection \<open>Conservation of quantity\<close>

lemma buff_quantity_Push [simp]: "buff_quantity (Push b m) = buff_quantity b + quantity m"
  by (simp add: buff_quantity_def Push_def)

lemma buff_quantity_Cons [simp]: "buff_quantity (m # b) = quantity m + buff_quantity b"
  by (simp add: buff_quantity_def)

lemma buff_quantity_Nil [simp]: "buff_quantity [] = 0"
  by (simp add: buff_quantity_def)

lemma buff_quantity_append [simp]: "buff_quantity (a @ b) = buff_quantity a + buff_quantity b"
  by (simp add: buff_quantity_def)

lemma total_set_phase [simp]: "total_qty (set_phase t p f) = total_qty f"
  by (cases p) (simp_all add: set_phase_def total_qty_def)

lemma MoveBatchIn_total: "total_qty (state_of (MoveBatchIn f)) = total_qty f"
  by (cases "reserves f") (simp_all add: MoveBatchIn_def Pop_def state_of_def total_qty_def)

lemma MoveBatchOut_total: "total_qty (state_of (MoveBatchOut f)) = total_qty f"
  by (cases "core f") (simp_all add: MoveBatchOut_def Pop_def state_of_def total_qty_def Transmute_def)

lemma state_of_Inr [simp]: "state_of (Inr s) = s"
  by (simp add: state_of_def)

lemma state_of_Inl [simp]: "state_of (Inl (e, s)) = s"
  by (simp add: state_of_def)

lemma Refuel_total: "total_qty (state_of (Refuel f)) = total_qty f"
proof (induction f rule: Refuel.induct)
  case (1 f)
  show ?case
  proof (cases "n_core f < n_batches f \<and> count (reserves f) > 0")
    case False
    then show ?thesis by (subst Refuel.simps) auto
  next
    case True
    show ?thesis
    proof (cases "MoveBatchIn f")
      case (Inl x)
      with True MoveBatchIn_total [of f] show ?thesis
        by (subst Refuel.simps) (cases x, simp)
    next
      case (Inr f')
      with True MoveBatchIn_total [of f] "1.IH" [of f'] show ?thesis
        by (subst Refuel.simps) simp
    qed
  qed
qed

lemma unload_total: "total_qty (state_of (unload k f)) = total_qty f"
proof (induction k arbitrary: f)
  case 0
  show ?case by simp
next
  case (Suc k)
  show ?case
  proof (cases "MoveBatchOut f")
    case (Inl x)
    with MoveBatchOut_total [of f] show ?thesis by (cases x) simp
  next
    case (Inr f')
    with MoveBatchOut_total [of f] Suc.IH [of f'] show ?thesis by simp
  qed
qed

lemma HandleTick_total: "total_qty (state_of (HandleTick t time f)) = total_qty f"
proof (cases "phase f")
  case PROCESS
  show ?thesis
  proof (cases "unload (nat (n_load f)) f")
    case (Inl x)
    with PROCESS unload_total [of "nat (n_load f)" f] show ?thesis
      by (cases x) (simp add: HandleTick_def)
  next
    case (Inr f')
    with PROCESS unload_total [of "nat (n_load f)" f] show ?thesis
      by (simp add: HandleTick_def)
  qed
qed (simp_all add: HandleTick_def)

lemma HandleTock_total: "total_qty (state_of (HandleTock time f)) = total_qty f"
  by (cases "phase f") (simp_all add: HandleTock_def Refuel_total)

lemma AddBatches_loop_total:
  "AddBatches_loop f = Some r \<Longrightarrow> total_qty (state_of r) = total_qty f"
proof (induction rule: AddBatches_loop.raw_induct [rotated 1, consumes 1, case_names step])
  case (step loop f r)
  show ?case
  proof (cases "quantity (spillover f) \<ge> batch_size f")
    case False
    with step(2) show ?thesis by auto
  next
    case True
    then have ex: "ExtractQty (spillover f) (batch_size f) =
        Inr (\<lparr>quantity = batch_size f, comp = comp (spillover f)\<rparr>,
             (spillover f)\<lparr>quantity := quantity (spillover f) - batch_size f\<rparr>)"
      by (simp add: ExtractQty_def)
    with True step(2) have "loop (f\<lparr>spillover := (spillover f)\<lparr>quantity := quantity (spillover f) - batch_size f\<rparr>,
         reserves := Push (reserves f) \<lparr>quantity = batch_size f, comp = comp (spillover f)\<rparr>\<rparr>) = Some r"
      by simp
    from step(1) [OF this] show ?thesis by (simp add: total_qty_def)
  qed
qed

lemma AddBatches_total:
  "AddBatches mat f = Some r \<Longrightarrow> total_qty (state_of r) = total_qty f + quantity mat"
  using AddBatches_loop_total [of "f\<lparr>spillover := Absorb (spillover f) mat\<rparr>" r]
  by (simp add: AddBatches_def total_qty_def Absorb_def)

lemma quantity_foldl_Absorb:
  "quantity (foldl Absorb m ms) = quantity m + buff_quantity ms"
  by (induction ms arbitrary: m) (simp_all add: Absorb_def)

lemma quantity_merge:
  "quantity (foldl (\<lambda>mat x. Absorb mat (snd x)) m rs) = quantity m + sum_list (map (\<lambda>x. quantity (snd x)) rs)"
  by (induction rs arbitrary: m) (simp_all add: Absorb_def)

lemma AcceptMatlTrades_total:
  "AcceptMatlTrades rs f = Some r \<Longrightarrow>
   total_qty (state_of r) = total_qty f + (if rs = [] then 0 else sum_list (map (\<lambda>x. quantity (snd x)) rs))"
proof (cases rs)
  case Nil
  assume "AcceptMatlTrades rs f = Some r"
  with Nil show ?thesis by (auto simp: AcceptMatlTrades_def merge_responses_def)
next
  case (Cons a as)
  assume "AcceptMatlTrades rs f = Some r"
  with Cons AddBatches_total [of "foldl (\<lambda>mat x. Absorb mat (snd x)) (snd a) as" f r]
  show ?thesis by (simp add: AcceptMatlTrades_def merge_responses_def quantity_merge)
qed

lemma PopQty_loop_conserves:
  "PopQty_loop left b man = Inr (man', rest) \<Longrightarrow>
   buff_quantity man' + buff_quantity rest = buff_quantity man + buff_quantity b"
proof (induction b arbitrary: left man)
  case Nil
  then show ?case by (auto split: if_splits)
next
  case (Cons r mats)
  show ?case
  proof (cases "left > 0")
    case False
    with Cons.prems show ?thesis by auto
  next
    case True
    show ?thesis
    proof (cases "quantity r - left > 0")
      case True
      with \<open>left > 0\<close> Cons.prems show ?thesis
        by (auto simp: ExtractQty_def split: if_splits)
    next
      case False
      with \<open>left > 0\<close> Cons.prems have "PopQty_loop (left - quantity r) mats (man @ [r]) = Inr (man', rest)"
        by simp
      from Cons.IH [OF this] show ?thesis by simp
    qed
  qed
qed

lemma PopQty_loop_extends:
  "PopQty_loop left b man = Inr (man', rest) \<Longrightarrow> \<exists>xs. man' = man @ xs"
proof (induction b arbitrary: left man)
  case Nil
  then show ?case by (auto split: if_splits)
next
  case (Cons r mats)
  show ?case
  proof (cases "left > 0 \<and> \<not> quantity r - left > 0")
    case True
    with Cons.prems have "PopQty_loop (left - quantity r) mats (man @ [r]) = Inr (man', rest)"
      by simp
    from Cons.IH [OF this] show ?thesis by auto
  next
    case False
    with Cons.prems show ?thesis
      by (auto simp: ExtractQty_def split: if_splits)
  qed
qed

lemma PopQty_loop_exact:
  "left \<le> buff_quantity b \<Longrightarrow>
   \<exists>man' rest. PopQty_loop left b man = Inr (man', rest) \<and>
      buff_quantity man' = buff_quantity man + max left 0 \<and>
      (left > 0 \<longrightarrow> man' \<noteq> [])"
proof (induction b arbitrary: left man)
  case Nil
  then show ?case by simp
next
  case (Cons r mats)
  show ?case
  proof (cases "left > 0")
    case False
    then show ?thesis by simp
  next
    case True
    show ?thesis
    proof (cases "quantity r - left > 0")
      case True
      with \<open>left > 0\<close> show ?thesis
        by (simp add: ExtractQty_def)
    next
      case False
      have "left - quantity r \<le> buff_quantity mats" using Cons.prems by simp
      from Cons.IH [OF this, of "man @ [r]"] obtain man' rest where
        r: "PopQty_loop (left - quantity r) mats (man @ [r]) = Inr (man', rest)"
           "buff_quantity man' = buff_quantity (man @ [r]) + max (left - quantity r) 0"
           "left - quantity r > 0 \<longrightarrow> man' \<noteq> []"
        by blast
      have "man' \<noteq> []"
        using PopQty_loop_extends [OF r(1)] by auto
      with r False \<open>left > 0\<close> show ?thesis by (auto simp: max_def)
    qed
  qed
qed

lemma PopQty_too_much:
  "buff_quantity b < qty \<Longrightarrow> PopQty b qty = Inl (Error popqty_what)"
  by (simp add: PopQty_def)

lemma PopQty_conserves:
  "PopQty b qty = Inr (man, rest) \<Longrightarrow> buff_quantity man + buff_quantity rest = buff_quantity b"
  using PopQty_loop_conserves [of qty b "[]" man rest]
  by (simp add: PopQty_def split: if_splits)

lemma PopQty_exact:
  assumes "PopQty b qty = Inr (m # ms, rest)"
  shows "buff_quantity (m # ms) = qty"
proof -
  from assms have le: "qty \<le> buff_quantity b" and l: "PopQty_loop qty b [] = Inr (m # ms, rest)"
    by (auto simp: PopQty_def split: if_splits)
  from PopQty_loop_exact [OF le, of "[]"] l have q: "buff_quantity (m # ms) = max qty 0"
    by auto
  have "qty > 0"
  proof (rule ccontr)
    assume "\<not> qty > 0"
    then have "PopQty_loop qty b [] = Inr ([], b)" by (cases b) simp_all
    with l show False by simp
  qed
  with q show ?thesis by simp
qed

lemma GetMatlTrades_conserves:
  "total_qty (fst (state_of (GetMatlTrades ts (f, rs)))) + resp_qty (snd (state_of (GetMatlTrades ts (f, rs))))
     = total_qty f + resp_qty rs"
proof (induction ts arbitrary: f rs)
  case Nil
  show ?case by simp
next
  case (Cons t ts)
  show ?case
  proof (cases "PopQty (storage f) (amt t)")
    case (Inl e)
    then show ?thesis by simp
  next
    case (Inr p)
    obtain man rest where p: "p = (man, rest)" by (cases p)
    from PopQty_conserves Inr p
    have c: "buff_quantity man + buff_quantity rest = buff_quantity (storage f)" by simp
    show ?thesis
    proof (cases man)
      case Nil
      with Inr p c show ?thesis by (simp add: total_qty_def)
    next
      case (Cons m ms)
      have "quantity (foldl Absorb m ms) = buff_quantity man"
        using Cons by (simp add: quantity_foldl_Absorb)
      with Cons.IH [of "f\<lparr>storage := rest\<rparr>" "rs @ [(t, foldl Absorb m ms)]"] Inr p c Cons
      show ?thesis by (simp add: total_qty_def resp_qty_def)
    qed
  qed
qed

lemma GetMatlTrades_shipments:
  "GetMatlTrades ts (f, rs) = Inr (f', rs') \<Longrightarrow>
   map (\<lambda>x. (fst x, quantity (snd x))) rs' =
     map (\<lambda>x. (fst x, quantity (snd x))) rs @ map (\<lambda>t. (t, amt t)) ts"
proof (induction ts arbitrary: f rs)
  case Nil
  then show ?case by simp
next
  case (Cons t ts)
  from Cons.prems obtain m ms rest where
    p: "PopQty (storage f) (amt t) = Inr (m # ms, rest)"
    and g: "GetMatlTrades ts (f\<lparr>storage := rest\<rparr>, rs @ [(t, foldl Absorb m ms)]) = Inr (f', rs')"
    by (auto split: sum.splits list.splits)
  from PopQty_exact [OF p] have "quantity (foldl Absorb m ms) = amt t"
    by (simp add: quantity_foldl_Absorb)
  with Cons.IH [OF g] show ?case by simp
qed

lemma GetMatlTrades_shipped:
  assumes "GetMatlTrades ts (f, []) = Inr (f', rs')"
  shows "resp_qty rs' = sum_list (map amt ts)"
proof -
  have "resp_qty rs' = sum_list (map snd (map (\<lambda>x. (fst x, quantity (snd x))) rs'))"
    by (simp add: resp_qty_def o_def)
  also have "\<dots> = sum_list (map amt ts)"
    using GetMatlTrades_shipments [OF assms] by (simp add: o_def)
  finally show ?thesis .
qed

lemma step_conserves:
  assumes "step ev f = Some (Inr f')"
  shows "total_qty f' = total_qty f + received ev - shipped ev"
proof (cases ev)
  case (Tick t)
  with assms HandleTick_total [of t t f] show ?thesis
    by (simp add: step_def received_def shipped_def)
next
  case (Tock t)
  with assms HandleTock_total [of t f] show ?thesis
    by (simp add: step_def received_def shipped_def)
next
  case (AcceptTrades rs)
  with assms have a: "AcceptMatlTrades rs f = Some (Inr f')" by (simp add: step_def)
  then have "rs \<noteq> []" by (auto simp: AcceptMatlTrades_def merge_responses_def)
  with AcceptMatlTrades_total [OF a] AcceptTrades show ?thesis
    by (simp add: received_def shipped_def resp_qty_def)
next
  case (GetTrades ts)
  with assms obtain rs' where g: "GetMatlTrades ts (f, []) = Inr (f', rs')"
    by (cases "GetMatlTrades ts (f, [])") (auto simp: step_def)
  from GetMatlTrades_conserves [of ts f "[]"] g GetMatlTrades_shipped [OF g] GetTrades
  show ?thesis by (simp add: received_def shipped_def resp_qty_def)
qed

lemma run_conserves:
  "run evs f = Some (Inr f') \<Longrightarrow>
   total_qty f' = total_qty f + sum_list (map received evs) - sum_list (map shipped evs)"
proof (induction evs arbitrary: f)
  case Nil
  then show ?case by simp
next
  case (Cons ev evs)
  from Cons.prems obtain f1 where s: "step ev f = Some (Inr f1)" and r: "run evs f1 = Some (Inr f')"
    by (auto split: option.splits sum.splits)
  from step_conserves [OF s] Cons.IH [OF r] show ?case by simp
qed

text \<open>
  C1. The quantity held in reserves, core, storage and spillover together is left
  unchanged by a tick and by a tock, whether they return or throw (so by refuelling
  and unloading); a call of \<^verbatim>\<open>AcceptMatlTrades\<close> that ends adds the quantity of the
  responses it absorbs; \<^verbatim>\<open>GetMatlTrades\<close> takes away the quantity of the shipments it
  hands out. Over a sequence of calls that all return, the quantity changes by what
  the incoming trades brought less the amounts of the outgoing trades.
\<close>

theorem quantity_conserved:
  "total_qty (state_of (HandleTick t time f)) = total_qty f \<and>
   total_qty (state_of (HandleTock time f)) = total_qty f \<and>
   (\<forall>r. AcceptMatlTrades rs f = Some r \<longrightarrow>
      total_qty (state_of r) = total_qty f + (if rs = [] then 0 else resp_qty rs)) \<and>
   total_qty (fst (state_of (GetMatlTrades ts (f, [])))) =
     total_qty f - resp_qty (snd (state_of (GetMatlTrades ts (f, [])))) \<and>
   (\<forall>f'. run evs f = Some (Inr f') \<longrightarrow>
      total_qty f' = total_qty f + sum_list (map received evs) - sum_list (map shipped evs))"
  using HandleTick_total [of t time f] HandleTock_total [of time f]
    AcceptMatlTrades_total [of rs f] GetMatlTrades_conserves [of ts f "[]"]
    run_conserves [of evs f]
  by (simp add: resp_qty_def)

theorem quantity_conserved_witness:
  "run trading_events trading = Some (Inr trading_after) \<and>
   total_qty trading = 2 \<and> sum_list (map received trading_events) = 3 \<and>
   sum_list (map shipped trading_events) = 1 \<and> total_qty trading_after = 4"
proof -
  have r: "run trading_events trading = Some (Inr trading_after)"
    by code_simp
  have q: "total_qty trading = 2" "sum_list (map received trading_events) = 3"
    "sum_list (map shipped trading_events) = 1"
    by (simp_all add: total_qty_def trading_def trading_events_def BatchReactor_def Create_def
        CreateBlank_def received_def shipped_def resp_qty_def)
  from quantity_conserved [of 0 0 trading "[]" "[]" trading_events] r q
  show ?thesis by simp
qed

subsection \<open>Failing shipments\<close>

lemma GetMatlTrades_append:
  "GetMatlTrades (ts1 @ ts2) s =
     (case GetMatlTrades ts1 s of Inl x \<Rightarrow> Inl x | Inr s' \<Rightarrow> GetMatlTrades ts2 s')"
proof (induction ts1 s rule: GetMatlTrades.induct)
  case (1 s)
  show ?case by simp
next
  case (2 t trades f responses)
  then show ?case by (simp split: sum.splits list.splits prod.splits)
qed

text \<open>
  C9. When the trade list reaches a trade whose amount exceeds what the storage then
  holds, \<^verbatim>\<open>GetMatlTrades\<close> throws a \<^verbatim>\<open>cyclus::Error\<close> whose message is the fixed text
  \<^verbatim>\<open>BatchReactor experience an error: \<close> followed by the buffer's own message. The
  facility and the responses are as the earlier trades left them, the later trades are
  not looked at, and nothing is tried again.
\<close>

theorem GetMatlTrades_underflow:
  assumes "GetMatlTrades earlier s = Inr (f, rs)"
    and "buff_quantity (storage f) < amt t"
  shows "GetMatlTrades (earlier @ t # later) s =
           Inl (Error (''BatchReactor experience an error: '' @ popqty_what), (f, rs))"
  using assms
  by (simp add: GetMatlTrades_append PopQty_too_much wrap_def)

theorem GetMatlTrades_underflow_witness:
  "GetMatlTrades [unit_trade] (trading, []) =
     Inr (trading\<lparr>storage := [\<lparr>quantity = 1, comp = Recipe ''spent_uox''\<rparr>]\<rparr>,
          [(unit_trade, \<lparr>quantity = 1, comp = Recipe ''spent_uox''\<rparr>)]) \<and>
   GetMatlTrades ([unit_trade] @ unit_trade\<lparr>amt := 2\<rparr> # [unit_trade]) (trading, []) =
     Inl (Error (''BatchReactor experience an error: '' @ popqty_what),
          (trading\<lparr>storage := [\<lparr>quantity = 1, comp = Recipe ''spent_uox''\<rparr>]\<rparr>,
           [(unit_trade, \<lparr>quantity = 1, comp = Recipe ''spent_uox''\<rparr>)]))"
proof -
  have e: "GetMatlTrades [unit_trade] (trading, []) =
     Inr (trading\<lparr>storage := [\<lparr>quantity = 1, comp = Recipe ''spent_uox''\<rparr>]\<rparr>,
          [(unit_trade, \<lparr>quantity = 1, comp = Recipe ''spent_uox''\<rparr>)])"
    by (simp add: unit_trade_def trading_def BatchReactor_def PopQty_def Create_def ExtractQty_def)
  have l: "buff_quantity (storage (trading\<lparr>storage := [\<lparr>quantity = 1, comp = Recipe ''spent_uox''\<rparr>]\<rparr>))
            < amt (unit_trade\<lparr>amt := 2\<rparr>)"
    by simp
  from GetMatlTrades_underflow [OF e l, of "[unit_trade]"] e show ?thesis by simp
qed

text \<open>The claim C9 as it is written gives the message as an identifier followed by
  \<^verbatim>\<open>experienced an error: \<close> and the cause. The source's text reads
  \<^verbatim>\<open>experience an error: \<close>: whatever the identifier, the message thrown for one unit
  asked of an empty storage is not of the claimed form.\<close>

theorem wrapped_message_text:
  "GetMatlTrades [unit_trade] (BatchReactor, []) =
     Inl (Error (''BatchReactor experience an error: '' @ popqty_what), (BatchReactor, [])) \<and>
   \<not> (\<exists>ident. GetMatlTrades [unit_trade] (BatchReactor, []) =
          Inl (Error (ident @ ''experienced an error: '' @ popqty_what), (BatchReactor, [])))"
proof -
  have g: "GetMatlTrades [unit_trade] (BatchReactor, []) =
     Inl (Error (''BatchReactor experience an error: '' @ popqty_what), (BatchReactor, []))"
    by (simp add: unit_trade_def BatchReactor_def PopQty_def wrap_def)
  have "''BatchReactor experience an error: '' @ popqty_what \<noteq>
        ident @ ''experienced an error: '' @ popqty_what" for ident
  proof
    assume "''BatchReactor experience an error: '' @ popqty_what =
        ident @ ''experienced an error: '' @ popqty_what"
    then have "''BatchReactor experience an error: '' @ popqty_what =
        (ident @ ''experienced an error: '') @ popqty_what" by simp
    then have eq: "''BatchReactor experience an error: '' = ident @ ''experienced an error: ''"
      by (simp only: append_same_eq)
    then have "length ''BatchReactor experience an error: '' = length (ident @ ''experienced an error: '')"
      by (rule arg_cong)
    then have len: "length ident = 12" by simp
    from eq have "drop (length ident) ''BatchReactor experience an error: '' = ''experienced an error: ''"
      by (metis append_eq_conv_conj)
    with len show False by simp
  qed
  with g show ?thesis by simp
qed

subsection \<open>Incoming trades\<close>

text \<open>
  C10. \<^verbatim>\<open>AcceptMatlTrades\<close> on an empty list of responses does not return: it throws
  \<^verbatim>\<open>std::out_of_range\<close> from \<^verbatim>\<open>responses.at(0)\<close>, the facility untouched. On a list
  with a first response it merges the later responses into the first, the merged
  material has the sum of all the responses' quantities, and that material is what
  \<^verbatim>\<open>AddBatches_\<close> absorbs into the spillover.
\<close>

theorem AcceptMatlTrades_merges:
  "AcceptMatlTrades [] f = Some (Inl (out_of_range, f)) \<and>
   (\<forall>r rs. \<exists>mat. merge_responses (r # rs) = Inr mat \<and>
       quantity mat = resp_qty (r # rs) \<and>
       AcceptMatlTrades (r # rs) f = AddBatches mat f)"
  by (simp add: AcceptMatlTrades_def merge_responses_def quantity_merge resp_qty_def)

subsection \<open>Core capacity\<close>

lemma length_push_n: "length (push_n k m b) = length b + k"
  by (induction k arbitrary: b) (simp_all add: Push_def)

lemma Deploy_core: "n_core (Deploy t f) = n_core f + int (nat (ic_n_core (ics f)))"
  by (simp add: Deploy_def Let_def n_core_def count_def length_push_n set_phase_def)

lemma Deploy_n_batches: "n_batches (Deploy t f) = n_batches f"
  by (simp add: Deploy_def Let_def set_phase_def)

lemma MoveBatchIn_core_ok:
  "n_core f < n_batches f \<Longrightarrow> core_ok (state_of (MoveBatchIn f))"
  by (cases "reserves f")
     (simp_all add: MoveBatchIn_def Pop_def core_ok_def n_core_def count_def Push_def)

lemma Refuel_core_ok: "core_ok f \<Longrightarrow> core_ok (state_of (Refuel f))"
proof (induction f rule: Refuel.induct)
  case (1 f)
  show ?case
  proof (cases "n_core f < n_batches f \<and> count (reserves f) > 0")
    case False
    with "1.prems" show ?thesis by (subst Refuel.simps) auto
  next
    case True
    show ?thesis
    proof (cases "MoveBatchIn f")
      case (Inl x)
      with True MoveBatchIn_core_ok [of f] show ?thesis
        by (subst Refuel.simps) (cases x, simp)
    next
      case (Inr f')
      with True MoveBatchIn_core_ok [of f] "1.IH" [of f'] show ?thesis
        by (subst Refuel.simps) simp
    qed
  qed
qed

lemma unload_core_ok: "core_ok f \<Longrightarrow> core_ok (state_of (unload k f))"
proof (cases "k \<le> length (core f)")
  case True
  assume "core_ok f"
  with unload_enough [OF True] show ?thesis
    by (simp add: core_ok_def n_core_def count_def)
next
  case False
  assume "core_ok f"
  with False unload_short [of f k] show ?thesis
    by (simp add: core_ok_def n_core_def count_def)
qed

lemma core_ok_set_phase [simp]: "core_ok (set_phase t p f) = core_ok f"
  by (cases p) (simp_all add: set_phase_def core_ok_def n_core_def)

lemma HandleTick_core_ok: "core_ok f \<Longrightarrow> core_ok (state_of (HandleTick t time f))"
proof (cases "phase f")
  case PROCESS
  assume ok: "core_ok f"
  show ?thesis
  proof (cases "unload (nat (n_load f)) f")
    case (Inl x)
    with PROCESS ok unload_core_ok [of f "nat (n_load f)"] show ?thesis
      by (cases x) (simp add: HandleTick_def)
  next
    case (Inr f')
    with PROCESS ok unload_core_ok [of f "nat (n_load f)"] show ?thesis
      by (simp add: HandleTick_def)
  qed
qed (simp_all add: HandleTick_def)

lemma HandleTock_core_ok: "core_ok f \<Longrightarrow> core_ok (state_of (HandleTock time f))"
  by (cases "phase f") (simp_all add: HandleTock_def Refuel_core_ok)

lemma AddBatches_loop_core:
  "AddBatches_loop f = Some r \<Longrightarrow> core (state_of r) = core f \<and> n_batches (state_of r) = n_batches f"
proof (induction rule: AddBatches_loop.raw_induct [rotated 1, consumes 1, case_names step])
  case (step loop f r)
  show ?case
  proof (cases "quantity (spillover f) \<ge> batch_size f")
    case False
    with step(2) show ?thesis by auto
  next
    case True
    with step(2) have "loop (f\<lparr>spillover := (spillover f)\<lparr>quantity := quantity (spillover f) - batch_size f\<rparr>,
         reserves := Push (reserves f) \<lparr>quantity = batch_size f, comp = comp (spillover f)\<rparr>\<rparr>) = Some r"
      by (simp add: ExtractQty_def)
    from step(1) [OF this] show ?thesis by simp
  qed
qed

lemma AcceptMatlTrades_core_ok:
  "core_ok f \<Longrightarrow> AcceptMatlTrades rs f = Some r \<Longrightarrow> core_ok (state_of r)"
proof (cases rs)
  case Nil
  assume "core_ok f" "AcceptMatlTrades rs f = Some r"
  with Nil show ?thesis by (auto simp: AcceptMatlTrades_def merge_responses_def)
next
  case (Cons a as)
  assume "core_ok f" "AcceptMatlTrades rs f = Some r"
  with Cons AddBatches_loop_core [of "f\<lparr>spillover := Absorb (spillover f) (foldl (\<lambda>mat x. Absorb mat (snd x)) (snd a) as)\<rparr>" r]
  show ?thesis by (simp add: AcceptMatlTrades_def merge_responses_def AddBatches_def core_ok_def n_core_def)
qed

lemma GetMatlTrades_core:
  "core (fst (state_of (GetMatlTrades ts (f, rs)))) = core f \<and>
   n_batches (fst (state_of (GetMatlTrades ts (f, rs)))) = n_batches f"
proof (induction ts arbitrary: f rs)
  case Nil
  show ?case by simp
next
  case (Cons t ts)
  show ?case
  proof (cases "PopQty (storage f) (amt t)")
    case (Inl e)
    then show ?thesis by simp
  next
    case (Inr p)
    obtain man rest where p: "p = (man, rest)" by (cases p)
    show ?thesis
    proof (cases man)
      case Nil
      with Inr p show ?thesis by simp
    next
      case (Cons m ms)
      with Cons.IH [of "f\<lparr>storage := rest\<rparr>" "rs @ [(t, foldl Absorb m ms)]"] Inr p
      show ?thesis by simp
    qed
  qed
qed

lemma step_core_ok:
  assumes "core_ok f" "step ev f = Some r"
  shows "core_ok (state_of r)"
proof (cases ev)
  case (Tick t)
  with assms HandleTick_core_ok [of f t t] show ?thesis by (auto simp: step_def)
next
  case (Tock t)
  with assms HandleTock_core_ok [of f t] show ?thesis by (auto simp: step_def)
next
  case (AcceptTrades rs)
  with assms AcceptMatlTrades_core_ok [of f rs r] show ?thesis by (simp add: step_def)
next
  case (GetTrades ts)
  have "state_of (map_sum (map_prod id fst) fst x) = fst (state_of x)" for x :: "(facility \<times> response list) outcome"
    by (cases x) (auto simp: state_of_def)
  with GetTrades assms GetMatlTrades_core [of ts f "[]"] show ?thesis
    by (auto simp: step_def core_ok_def n_core_def)
qed

lemma run_core_ok:
  "core_ok f \<Longrightarrow> run evs f = Some r \<Longrightarrow> core_ok (state_of r)"
proof (induction evs arbitrary: f)
  case Nil
  then show ?case by auto
next
  case (Cons ev evs)
  show ?case
  proof (cases "step ev f")
    case None
    with Cons.prems show ?thesis by simp
  next
    case (Some r1)
    show ?thesis
    proof (cases r1)
      case (Inl x)
      with Some Cons.prems step_core_ok [of f ev r1] show ?thesis by auto
    next
      case (Inr f1)
      with Some Cons.prems step_core_ok [of f ev r1] Cons.IH [of f1] show ?thesis by auto
    qed
  qed
qed

text \<open>
  C2. \<^verbatim>\<open>Deploy\<close> pushes as many batches into the core as the initial conditions say.
  When the facility is deployed with an empty core and an initial core count between 0
  and \<open>n_batches\<close>, the core holds that many batches after deployment, and after
  every sequence of ticks, tocks and trades, returning or throwing, the core holds at
  most \<open>n_batches\<close> batches.
\<close>

theorem core_within_n_batches:
  assumes "core f0 = []" and "0 \<le> ic_n_core (ics f0)" and "ic_n_core (ics f0) \<le> n_batches f0"
    and "run evs (Deploy t f0) = Some r"
  shows "n_core (Deploy t f0) = ic_n_core (ics f0) \<and> n_core (state_of r) \<le> n_batches (state_of r)"
proof -
  have "n_core f0 = 0" using assms(1) by (simp add: n_core_def count_def)
  with assms(2) have c: "n_core (Deploy t f0) = ic_n_core (ics f0)"
    by (simp add: Deploy_core)
  with assms(3) have "core_ok (Deploy t f0)" by (simp add: core_ok_def Deploy_n_batches)
  from run_core_ok [OF this assms(4)] c show ?thesis by (simp add: core_ok_def)
qed

theorem core_within_n_batches_witness:
  "core (InitModuleMembers cfg_primed BatchReactor) = [] \<and>
   ic_n_core (ics (InitModuleMembers cfg_primed BatchReactor)) = 1 \<and>
   n_batches (InitModuleMembers cfg_primed BatchReactor) = 2 \<and>
   run [Tock 0, Tick 1] (Deploy 0 (InitModuleMembers cfg_primed BatchReactor)) =
     Some (Inr primed_after) \<and>
   n_core (Deploy 0 (InitModuleMembers cfg_primed BatchReactor)) = 1 \<and>
   n_core primed_after \<le> n_batches primed_after"
proof -
  have i: "core (InitModuleMembers cfg_primed BatchReactor) = []"
    "ic_n_core (ics (InitModuleMembers cfg_primed BatchReactor)) = 1"
    "n_batches (InitModuleMembers cfg_primed BatchReactor) = 2"
    by (simp_all add: InitModuleMembers_def Let_def cfg_primed_def BatchReactor_def
        GetOptionalQuery_def)
  have r: "run [Tock 0, Tick 1] (Deploy 0 (InitModuleMembers cfg_primed BatchReactor)) =
     Some (Inr primed_after)"
    by code_simp
  from core_within_n_batches [OF i(1) _ _ r] i r show ?thesis by simp
qed

text \<open>The claim C2 as it is written takes any initial conditions: with
  \<^verbatim>\<open>nbatches\<close> 1 and \<^verbatim>\<open>ncore\<close> 2 the deployed facility has two batches in a core of
  one.\<close>

theorem deploy_overfills_core:
  "n_core (Deploy 0 (InitModuleMembers cfg_overfull BatchReactor)) = 2 \<and>
   n_batches (Deploy 0 (InitModuleMembers cfg_overfull BatchReactor)) = 1 \<and>
   \<not> n_core (Deploy 0 (InitModuleMembers cfg_overfull BatchReactor))
        \<le> n_batches (Deploy 0 (InitModuleMembers cfg_overfull BatchReactor))"
proof -
  have "n_core (InitModuleMembers cfg_overfull BatchReactor) = 0"
    "ic_n_core (ics (InitModuleMembers cfg_overfull BatchReactor)) = 2"
    "n_batches (InitModuleMembers cfg_overfull BatchReactor) = 1"
    by (simp_all add: InitModuleMembers_def Let_def cfg_overfull_def BatchReactor_def
        GetOptionalQuery_def n_core_def count_def)
  then show ?thesis by (simp add: Deploy_core Deploy_n_batches)
qed

subsection \<open>The spillover\<close>









end
